theory Spec2Isabelle
  imports
    Main
    "HOL-Library.AList"
    "HOL-Library.Char_ord"
    "HOL-Library.List_Lexorder"
    "HOL-Library.Product_Lexorder"
    "HOL-Library.Log_Nat"
    "HOL-Library.Multiset"
begin

section \<open>Python strings\<close>

text \<open>
  A Python \<open>str\<close> is modelled as a \<^typ>\<open>string\<close>; every \<^typ>\<open>char\<close> stands for the code
  point with the same number (0 to 255).  The functions below are the \<open>str\<close> methods that
  \<open>code.py\<close> calls, with Python's behaviour on these code points.
\<close>

definition isspace :: "char \<Rightarrow> bool" where
  \<comment> \<open>\<open>str.isspace\<close> on one character: TAB, LF, VT, FF, CR, FS, GS, RS, US, space, NEL, NBSP\<close>
  "isspace c = (of_char c \<in> {9, 10, 11, 12, 13, 28, 29, 30, 31, 32, 133, 160 :: nat})"

definition lstrip :: "string \<Rightarrow> string" where
  "lstrip s = dropWhile isspace s"

definition rstrip :: "string \<Rightarrow> string" where
  "rstrip s = rev (dropWhile isspace (rev s))"

definition strip :: "string \<Rightarrow> string" where
  \<comment> \<open>\<open>s.strip()\<close>\<close>
  "strip s = rstrip (lstrip s)"

definition lstrip_chars :: "string \<Rightarrow> string \<Rightarrow> string" where
  \<comment> \<open>\<open>s.lstrip(cs)\<close>: drop leading characters that occur in \<open>cs\<close>\<close>
  "lstrip_chars cs s = dropWhile (\<lambda>c. c \<in> set cs) s"

definition lower_char :: "char \<Rightarrow> char" where
  \<comment> \<open>\<open>A\<close>..\<open>Z\<close> and the Latin-1 capitals (192..222 except the multiplication sign 215)\<close>
  "lower_char c =
     (let n = (of_char c :: nat)
      in if (65 \<le> n \<and> n \<le> 90) \<or> (192 \<le> n \<and> n \<le> 222 \<and> n \<noteq> 215)
         then char_of (n + 32) else c)"

definition lower :: "string \<Rightarrow> string" where
  \<comment> \<open>\<open>s.lower()\<close>\<close>
  "lower s = map lower_char s"

definition startswith :: "string \<Rightarrow> string \<Rightarrow> bool" where
  \<comment> \<open>\<open>s.startswith(p)\<close>\<close>
  "startswith s p = (take (length p) s = p)"

fun contains :: "string \<Rightarrow> string \<Rightarrow> bool" where
  \<comment> \<open>\<open>sub in s\<close>\<close>
  "contains sub [] = (sub = [])"
| "contains sub (c # s) = (startswith (c # s) sub \<or> contains sub s)"

definition split_once :: "char \<Rightarrow> string \<Rightarrow> string \<times> string" where
  \<comment> \<open>\<open>s.split(c, 1)\<close> for a string \<open>s\<close> that holds \<open>c\<close>: the text before and after the first \<open>c\<close>\<close>
  "split_once c s = (takeWhile (\<lambda>x. x \<noteq> c) s, tl (dropWhile (\<lambda>x. x \<noteq> c) s))"

function replace :: "string \<Rightarrow> string \<Rightarrow> string \<Rightarrow> string" where
  \<comment> \<open>\<open>s.replace(old, new)\<close> for a non-empty \<open>old\<close>: left to right, occurrences do not overlap\<close>
  "replace old new [] = []"
| "replace old new (c # s) =
     (if old \<noteq> [] \<and> startswith (c # s) old
      then new @ replace old new (drop (length old) (c # s))
      else c # replace old new s)"
  by pat_completeness auto
termination
  by (relation "measure (\<lambda>(old, new, s). length s)") auto

function split_aux :: "string \<Rightarrow> string \<Rightarrow> string \<Rightarrow> string list" where
  "split_aux sep acc [] = [rev acc]"
| "split_aux sep acc (c # s) =
     (if sep \<noteq> [] \<and> startswith (c # s) sep
      then rev acc # split_aux sep [] (drop (length sep) (c # s))
      else split_aux sep (c # acc) s)"
  by pat_completeness auto
termination
  by (relation "measure (\<lambda>(sep, acc, s). length s)") auto

definition split :: "string \<Rightarrow> string \<Rightarrow> string list" where
  \<comment> \<open>\<open>s.split(sep)\<close> for a non-empty separator\<close>
  "split sep s = split_aux sep [] s"

fun join :: "string \<Rightarrow> string list \<Rightarrow> string" where
  \<comment> \<open>\<open>sep.join(xs)\<close>\<close>
  "join sep [] = []"
| "join sep [x] = x"
| "join sep (x # y # xs) = x @ sep @ join sep (y # xs)"

definition endswith :: "string \<Rightarrow> string \<Rightarrow> bool" where
  \<comment> \<open>\<open>s.endswith(p)\<close>\<close>
  "endswith s p = (length p \<le> length s \<and> drop (length s - length p) s = p)"

datatype py_error = ValueError | KeyError | AttributeError

section \<open>Text files\<close>

text \<open>
  \<open>open(path, "r", encoding="utf-8")\<close> gives the text of the file; iterating over it yields
  its lines, each with its line feed.  Text mode turns CR LF and a lone CR into a line feed
  first.  The extractors below take the decoded text of the file, so a file that cannot be
  opened or decoded (where Python raises from \<open>open\<close>) is outside the model.
\<close>

fun universal_newlines :: "string \<Rightarrow> string" where
  "universal_newlines [] = []"
| "universal_newlines [c] = (if c = CHR 0x0D then [CHR 0x0A] else [c])"
| "universal_newlines (c # d # s) =
     (if c = CHR 0x0D \<and> d = CHR 0x0A then CHR 0x0A # universal_newlines s
      else if c = CHR 0x0D then CHR 0x0A # universal_newlines (d # s)
      else c # universal_newlines (d # s))"

fun lines_aux :: "string \<Rightarrow> string \<Rightarrow> string list" where
  "lines_aux acc [] = (if acc = [] then [] else [rev acc])"
| "lines_aux acc (c # s) =
     (if c = CHR 0x0A then rev (c # acc) # lines_aux [] s else lines_aux (c # acc) s)"

definition file_lines :: "string \<Rightarrow> string list" where
  \<comment> \<open>\<open>for line in f\<close>\<close>
  "file_lines text = lines_aux [] (universal_newlines text)"

section \<open>Extractor: Python comment header\<close>

text \<open>
  A \<open>dict\<close> with string keys is an association list in insertion order;
  \<^const>\<open>AList.update\<close> is \<open>d[k] = v\<close> (it keeps the place of a key that is there and puts
  a new key last) and \<^const>\<open>map_of\<close> is the lookup.
\<close>

type_synonym fields = "(string \<times> string) list"

fun comment_loop ::
  "string list \<Rightarrow> fields \<Rightarrow> string option \<Rightarrow> py_error + fields" where
  "comment_loop [] data current_key = Inr data"
| "comment_loop (line # rest) data current_key =
     (if \<not> startswith (strip line) ''#'' then Inr data
      else
        let content = strip (lstrip_chars ''#'' line) in
        if contains '':'' content then
          (case split_once (CHR '':'') content of
             (key, val) \<Rightarrow>
               comment_loop rest (AList.update (strip key) (strip val) data) (Some (strip key)))
        else
          (case current_key of
             None \<Rightarrow> comment_loop rest data current_key
           | Some k \<Rightarrow>
               if k = [] then comment_loop rest data current_key
               else
                 (case map_of data k of
                    None \<Rightarrow> Inl KeyError
                  | Some v \<Rightarrow>
                      comment_loop rest
                        (AList.update k (v @ [CHR 0x0A] @ strip content) data) current_key)))"

definition extract_comment_header :: "string \<Rightarrow> py_error + fields" where
  "extract_comment_header text = comment_loop (file_lines text) [] None"

section \<open>Extractor: Java literal header\<close>

definition JAVA_KEY_MAP :: "(string \<times> string) list" where
  "JAVA_KEY_MAP =
     [(''id'', ''ID''), (''description'', ''Objective''), (''title'', ''Filename''),
      (''author'', ''Author'')]"

definition WORD_KEY_MAP :: "(string \<times> string) list" where
  "WORD_KEY_MAP = JAVA_KEY_MAP"

definition header_marker :: string where
  "header_marker = ''public static String Header''"

definition header_terminator :: string where
  \<comment> \<open>a double quote followed by a semicolon\<close>
  "header_terminator = [CHR 0x22, CHR '';'']"

fun java_scan :: "string list \<Rightarrow> bool \<Rightarrow> string list \<Rightarrow> string list" where
  \<comment> \<open>the loop over the file: the trimmed lines between the marker line and the terminator line\<close>
  "java_scan [] header_started lines = lines"
| "java_scan (line # rest) header_started lines =
     (if contains header_marker line then java_scan rest True lines
      else if header_started then
        (if contains header_terminator line then lines
         else java_scan rest header_started (lines @ [strip line]))
      else java_scan rest header_started lines)"

fun java_parse :: "string list \<Rightarrow> fields \<Rightarrow> fields" where
  \<comment> \<open>the loop over the logical lines of the header\<close>
  "java_parse [] data = data"
| "java_parse (line # rest) data =
     (if contains '':'' line then
        (case split_once (CHR '':'') line of
           (key, val) \<Rightarrow>
             java_parse rest
               (AList.update
                  (case map_of JAVA_KEY_MAP (lower (strip key)) of
                     Some canonical \<Rightarrow> canonical
                   | None \<Rightarrow> strip key)
                  (strip val) data))
      else java_parse rest data)"

definition clean_header :: "string list \<Rightarrow> string" where
  \<comment> \<open>\<open>"".join(lines).replace('"+', "").replace('"', "")\<close>\<close>
  "clean_header lines = replace [CHR 0x22] [] (replace [CHR 0x22, CHR ''+''] [] (concat lines))"

definition escaped_newline :: string where
  \<comment> \<open>the two characters backslash and \<open>n\<close>\<close>
  "escaped_newline = [CHR 0x5C, CHR ''n'']"

definition extract_java_header :: "string \<Rightarrow> fields" where
  "extract_java_header text =
     java_parse (split escaped_newline (clean_header (java_scan (file_lines text) False []))) []"

section \<open>Extractor: Word tables\<close>

text \<open>
  \<open>Document(path).tables\<close> is the list of the tables of the document; a table is the list of
  its rows and a row the list of the texts of its cells.
\<close>

type_synonym table = "string list list"
type_synonym document = "table list"

fun metadata_rows :: "table \<Rightarrow> fields \<Rightarrow> fields" where
  \<comment> \<open>the loop over \<open>tables[0].rows\<close>: a later row with the same key overwrites\<close>
  "metadata_rows [] metadata = metadata"
| "metadata_rows (cells # rows) metadata =
     (if length cells < 2 then metadata_rows rows metadata
      else
        let key = strip (cells ! 0); val = strip (cells ! 1) in
        if key \<noteq> [] then metadata_rows rows (AList.update key val metadata)
        else metadata_rows rows metadata)"

fun case_rows :: "table \<Rightarrow> fields \<Rightarrow> fields" where
  \<comment> \<open>the loop over the rows of one case table: a repeated key appends on a new line\<close>
  "case_rows [] case_data = case_data"
| "case_rows (cells # rows) case_data =
     (if length cells < 2 then case_rows rows case_data
      else
        let key = strip (cells ! 0); val = strip (cells ! 1) in
        if key \<noteq> [] then
          (case map_of case_data key of
             Some old \<Rightarrow> case_rows rows (AList.update key (old @ [CHR 0x0A] @ val) case_data)
           | None \<Rightarrow> case_rows rows (AList.update key val case_data))
        else case_rows rows case_data)"

text \<open>
  A Python \<open>set\<close> of strings is a list without repetition.  Python does not fix the order in
  which a set is iterated; here it is the order of insertion, which only decides the order of
  the identifiers inside one diagnostic.
\<close>

definition set_add :: "string \<Rightarrow> string list \<Rightarrow> string list" where
  "set_add x xs = (if x \<in> set xs then xs else xs @ [x])"

definition set_update :: "string list \<Rightarrow> string list \<Rightarrow> string list" where
  "set_update xs ys = fold set_add ys xs"

definition set_diff :: "string list \<Rightarrow> string list \<Rightarrow> string list" where
  "set_diff xs ys = filter (\<lambda>x. x \<notin> set ys) xs"

definition id_list :: "string \<Rightarrow> string list" where
  \<comment> \<open>\<open>p.strip() for p in v.replace(";", ",").split(",") if p.strip()\<close>\<close>
  "id_list v = filter (\<lambda>p. p \<noteq> []) (map strip (split '','' (replace '';'' '','' v)))"

fun expected_loop :: "fields \<Rightarrow> string list \<Rightarrow> string list" where
  "expected_loop [] expected_ids = expected_ids"
| "expected_loop ((k, v) # rest) expected_ids =
     (if contains ''another id'' (lower k)
      then expected_loop rest (set_update expected_ids (id_list v))
      else expected_loop rest expected_ids)"

definition case_id :: "fields \<Rightarrow> string option" where
  \<comment> \<open>\<open>case_data.get("Case ID") or case_data.get("case id")\<close>\<close>
  "case_id case_data =
     (case map_of case_data ''Case ID'' of
        Some c \<Rightarrow> if c \<noteq> [] then Some c else map_of case_data ''case id''
      | None \<Rightarrow> map_of case_data ''case id'')"

fun cases_loop ::
  "table list \<Rightarrow> fields list \<Rightarrow> string list \<Rightarrow> fields list \<times> string list" where
  \<comment> \<open>the loop over \<open>tables[1:]\<close>, with the state \<open>(cases, found_ids)\<close>\<close>
  "cases_loop [] cases found_ids = (cases, found_ids)"
| "cases_loop (t # ts) cases found_ids =
     (let case_data = case_rows t [] in
      cases_loop ts (cases @ [case_data])
        (case case_id case_data of
           Some cid \<Rightarrow> if cid \<noteq> [] then set_add (strip cid) found_ids else found_ids
         | None \<Rightarrow> found_ids))"

definition extract_word_cases :: "document \<Rightarrow> fields \<times> fields list \<times> string list" where
  "extract_word_cases tables =
     (if length tables < 2 then ([], [], [''Template or test cases not found''])
      else
        let metadata = metadata_rows (tables ! 0) [];
            expected_ids = expected_loop metadata [];
            (cases, found_ids) = cases_loop (drop 1 tables) [] [];
            mismatches =
              (if set_diff expected_ids found_ids \<noteq> []
               then [''IDs in template but not in cases: ''
                       @ join '', '' (set_diff expected_ids found_ids)]
               else [])
              @ (if set_diff found_ids expected_ids \<noteq> []
                 then [''Case IDs not listed in template: ''
                         @ join '', '' (set_diff found_ids expected_ids)]
                 else [])
        in (metadata, cases, mismatches))"

fun combine_case :: "fields \<Rightarrow> fields \<Rightarrow> fields" where
  \<comment> \<open>the loop over \<open>case.items()\<close>\<close>
  "combine_case [] combined_fields = combined_fields"
| "combine_case ((key, val) # rest) combined_fields =
     (case map_of combined_fields key of
        Some old \<Rightarrow> combine_case rest (AList.update key (old @ [CHR 0x0A] @ val) combined_fields)
      | None \<Rightarrow> combine_case rest (AList.update key val combined_fields))"

definition combine_cases :: "fields list \<Rightarrow> fields" where
  "combine_cases cases = fold combine_case cases []"

fun flatten_loop :: "fields \<Rightarrow> fields \<Rightarrow> fields" where
  \<comment> \<open>the loop over \<open>combined_fields.items()\<close>\<close>
  "flatten_loop [] result = result"
| "flatten_loop ((k, v) # rest) result =
     (case map_of result k of
        None \<Rightarrow> flatten_loop rest (AList.update k v result)
      | Some old \<Rightarrow> flatten_loop rest (AList.update k (old @ [CHR 0x0A] @ v) result))"

definition word_header :: "fields \<Rightarrow> fields list \<Rightarrow> string list \<Rightarrow> fields" where
  \<comment> \<open>the body of \<open>extract_word_header\<close> after the call of \<open>extract_word_cases\<close>\<close>
  "word_header metadata cases mismatches =
     (let result = flatten_loop (combine_cases cases) metadata in
      if mismatches \<noteq> []
      then AList.update ''Word Template Issues'' (join ''; '' mismatches) result
      else result)"

definition extract_word_header :: "document \<Rightarrow> fields" where
  "extract_word_header tables =
     (case extract_word_cases tables of
        (metadata, cases, mismatches) \<Rightarrow> word_header metadata cases mismatches)"

section \<open>The similarity scorer\<close>

subsection \<open>\<open>difflib.SequenceMatcher(None, a, b)\<close>\<close>

text \<open>
  The matcher is built with no junk predicate and with \<open>autojunk\<close> on.  \<open>b2j\<close> maps a
  character to the ascending list of its positions in \<open>b\<close>; when \<open>b\<close> has at least 200
  characters, a character that occurs more than \<open>len(b) // 100 + 1\<close> times is "popular"
  and is deleted from \<open>b2j\<close>.  The set of junk characters is empty.
\<close>

definition popular :: "string \<Rightarrow> char \<Rightarrow> bool" where
  "popular b c = (200 \<le> length b \<and> length b div 100 + 1 < count_list b c)"

definition b2j :: "string \<Rightarrow> char \<Rightarrow> nat list" where
  \<comment> \<open>\<open>b2j.get(c, [])\<close>\<close>
  "b2j b c = (if popular b c then [] else filter (\<lambda>j. b ! j = c) [0..<length b])"

type_synonym match = "nat \<times> nat \<times> nat"

text \<open>
  \<open>j2len\<close> is a dictionary from positions to positive lengths that is only read with
  \<open>j2len.get(j - 1, 0)\<close>: it is a function that is \<open>0\<close> where the dictionary has no entry.
\<close>

fun inner_loop ::
  "nat \<Rightarrow> nat \<Rightarrow> nat \<Rightarrow> (nat \<Rightarrow> nat) \<Rightarrow> nat list \<Rightarrow> (nat \<Rightarrow> nat) \<times> match
     \<Rightarrow> (nat \<Rightarrow> nat) \<times> match" where
  \<comment> \<open>\<open>for j in b2j.get(a[i], nothing)\<close>, with the state \<open>(newj2len, (besti, bestj, bestsize))\<close>\<close>
  "inner_loop i blo bhi j2len [] st = st"
| "inner_loop i blo bhi j2len (j # js) (newj2len, (besti, bestj, bestsize)) =
     (if j < blo then inner_loop i blo bhi j2len js (newj2len, (besti, bestj, bestsize))
      else if bhi \<le> j then (newj2len, (besti, bestj, bestsize))
      else
        let k = (if j = 0 then 0 else j2len (j - 1)) + 1 in
        inner_loop i blo bhi j2len js
          (newj2len(j := k),
           if bestsize < k then (i + 1 - k, j + 1 - k, k) else (besti, bestj, bestsize)))"

fun outer_loop ::
  "string \<Rightarrow> string \<Rightarrow> nat \<Rightarrow> nat \<Rightarrow> nat list \<Rightarrow> (nat \<Rightarrow> nat) \<times> match
     \<Rightarrow> (nat \<Rightarrow> nat) \<times> match" where
  \<comment> \<open>\<open>for i in range(alo, ahi)\<close>, with the state \<open>(j2len, (besti, bestj, bestsize))\<close>\<close>
  "outer_loop a b blo bhi [] st = st"
| "outer_loop a b blo bhi (i # is) (j2len, best) =
     outer_loop a b blo bhi is (inner_loop i blo bhi j2len (b2j b (a ! i)) (\<lambda>j. 0, best))"

function extend_left :: "string \<Rightarrow> string \<Rightarrow> nat \<Rightarrow> nat \<Rightarrow> match \<Rightarrow> match" where
  \<comment> \<open>the first \<open>while\<close> after the main loop\<close>
  "extend_left a b alo blo (besti, bestj, bestsize) =
     (if alo < besti \<and> blo < bestj \<and> a ! (besti - 1) = b ! (bestj - 1)
      then extend_left a b alo blo (besti - 1, bestj - 1, bestsize + 1)
      else (besti, bestj, bestsize))"
  by pat_completeness auto
termination
  by (relation "measure (\<lambda>(a, b, alo, blo, besti, bestj, bestsize). besti)") auto

declare extend_left.simps [simp del]

function extend_right :: "string \<Rightarrow> string \<Rightarrow> nat \<Rightarrow> nat \<Rightarrow> match \<Rightarrow> match" where
  \<comment> \<open>the second \<open>while\<close> after the main loop\<close>
  "extend_right a b ahi bhi (besti, bestj, bestsize) =
     (if besti + bestsize < ahi \<and> bestj + bestsize < bhi
         \<and> a ! (besti + bestsize) = b ! (bestj + bestsize)
      then extend_right a b ahi bhi (besti, bestj, bestsize + 1)
      else (besti, bestj, bestsize))"
  by pat_completeness auto
termination
  by (relation "measure (\<lambda>(a, b, ahi, bhi, besti, bestj, bestsize). ahi - (besti + bestsize))")
    auto

declare extend_right.simps [simp del]

text \<open>
  The last two \<open>while\<close> loops of \<open>find_longest_match\<close> extend the match over junk
  characters only; with an empty junk set their conditions are false at once.
\<close>

definition find_longest_match :: "string \<Rightarrow> string \<Rightarrow> nat \<Rightarrow> nat \<Rightarrow> nat \<Rightarrow> nat \<Rightarrow> match" where
  "find_longest_match a b alo ahi blo bhi =
     extend_right a b ahi bhi
       (extend_left a b alo blo
          (snd (outer_loop a b blo bhi [alo..<ahi] (\<lambda>j. 0, (alo, blo, 0)))))"

text \<open>
  \<open>get_matching_blocks\<close> keeps the ranges still to be searched on a stack (\<open>queue.pop()\<close>
  takes the last element of the Python list); here the head of the list is the top.
\<close>

function blocks_loop ::
  "string \<Rightarrow> string \<Rightarrow> (nat \<times> nat \<times> nat \<times> nat) list \<Rightarrow> match list \<Rightarrow> match list" where
  "blocks_loop a b [] matching_blocks = matching_blocks"
| "blocks_loop a b ((alo, ahi, blo, bhi) # queue) matching_blocks =
     (case find_longest_match a b alo ahi blo bhi of
        (i, j, k) \<Rightarrow>
          if k \<noteq> 0 then
            blocks_loop a b
              ((if i + k < ahi \<and> j + k < bhi then [(i + k, ahi, j + k, bhi)] else [])
               @ (if alo < i \<and> blo < j then [(alo, i, blo, j)] else [])
               @ queue)
              (matching_blocks @ [(i, j, k)])
          else blocks_loop a b queue matching_blocks)"
  by pat_completeness auto

fun collapse :: "match list \<Rightarrow> match \<Rightarrow> match list \<Rightarrow> match list" where
  \<comment> \<open>adjacent blocks become one block; the state is \<open>(i1, j1, k1)\<close> and \<open>non_adjacent\<close>\<close>
  "collapse [] (i1, j1, k1) non_adjacent =
     (if k1 \<noteq> 0 then non_adjacent @ [(i1, j1, k1)] else non_adjacent)"
| "collapse ((i2, j2, k2) # rest) (i1, j1, k1) non_adjacent =
     (if i1 + k1 = i2 \<and> j1 + k1 = j2 then collapse rest (i1, j1, k1 + k2) non_adjacent
      else collapse rest (i2, j2, k2)
             (if k1 \<noteq> 0 then non_adjacent @ [(i1, j1, k1)] else non_adjacent))"

definition get_matching_blocks :: "string \<Rightarrow> string \<Rightarrow> match list" where
  "get_matching_blocks a b =
     collapse (sort (blocks_loop a b [(0, length a, 0, length b)] [])) (0, 0, 0) []
       @ [(length a, length b, 0)]"

definition matches :: "string \<Rightarrow> string \<Rightarrow> nat" where
  \<comment> \<open>\<open>sum(triple[-1] for triple in self.get_matching_blocks())\<close>\<close>
  "matches a b = sum_list (map (\<lambda>(i, j, k). k) (get_matching_blocks a b))"

text \<open>The sum of the sizes of a list of blocks.\<close>

definition sizes :: "match list \<Rightarrow> nat" where
  "sizes ms = sum_list (map (\<lambda>(i, j, k). k) ms)"


subsection \<open>Python floats\<close>

text \<open>
  A finite Python \<open>float\<close> is a binary64 number and is modelled by the rational number it
  stands for.  An arithmetic operation gives the exact result rounded to the nearest number
  with a 53-bit significand, a tie going to the even significand (\<open>to_double\<close>).  The
  exponent is not bounded here: all floats of this program lie between \<open>2 / (len(a) + len(b))\<close>
  and \<open>100\<close>, far from overflow and from the subnormal numbers.
\<close>

definition ilog2 :: "rat \<Rightarrow> int" where
  \<comment> \<open>for \<open>x > 0\<close>, the integer \<open>e\<close> with \<open>2 ^ e \<le> x < 2 ^ (e + 1)\<close>\<close>
  "ilog2 x =
     (case quotient_of x of
        (p, q) \<Rightarrow> let d = bitlen p - bitlen q in if x < 2 powi d then d - 1 else d)"

definition round_half_even :: "rat \<Rightarrow> int" where
  "round_half_even x =
     (let f = \<lfloor>x\<rfloor>; r = x - of_int f
      in if r < 1 / 2 then f else if 1 / 2 < r then f + 1 else if even f then f else f + 1)"

definition to_double :: "rat \<Rightarrow> rat" where
  "to_double x =
     (if x = 0 then 0
      else
        let u = 2 powi (ilog2 \<bar>x\<bar> - 52)
        in sgn x * of_int (round_half_even (\<bar>x\<bar> / u)) * u)"

definition fmul :: "rat \<Rightarrow> rat \<Rightarrow> rat" where
  "fmul x y = to_double (x * y)"

definition fdiv :: "rat \<Rightarrow> rat \<Rightarrow> rat" where
  "fdiv x y = to_double (x / y)"

definition float_of_nat :: "nat \<Rightarrow> rat" where
  \<comment> \<open>the conversion of an \<open>int\<close> operand to \<open>float\<close>\<close>
  "float_of_nat n = to_double (of_nat n)"

definition py_round2 :: "rat \<Rightarrow> rat" where
  \<comment> \<open>\<open>round(x, 2)\<close>: the exact value of \<open>x\<close> is rounded to two decimals, a tie to the even
      digit, and the float nearest to that decimal is returned\<close>
  "py_round2 x = to_double (of_int (round_half_even (x * 100)) / 100)"

subsection \<open>\<open>ratio\<close> and \<open>similar\<close>\<close>

definition ratio :: "string \<Rightarrow> string \<Rightarrow> rat" where
  \<comment> \<open>\<open>_calculate_ratio(matches, len(a) + len(b))\<close>: \<open>2.0 * matches / length\<close>, or \<open>1.0\<close>\<close>
  "ratio a b =
     (let total = length a + length b
      in if total \<noteq> 0 then fdiv (fmul 2 (float_of_nat (matches a b))) (float_of_nat total)
         else 1)"

definition similar :: "string \<Rightarrow> string \<Rightarrow> rat" where
  "similar a b = py_round2 (fmul (ratio (lower a) (lower b)) 100)"

section \<open>The ledger\<close>

text \<open>
  A cell of a \<open>pandas\<close> frame is either missing (\<open>NaN\<close>) or holds a value; \<open>Str s\<close> is a
  value whose \<open>str()\<close> is \<open>s\<close>.  A row (\<open>Series\<close>) lists its columns in the order of the
  frame, and a frame is the list of its rows, which all have the same columns.
\<close>

datatype cell = NaN | Str string

type_synonym series = "(string \<times> cell) list"
type_synonym frame = "series list"

definition str_cell :: "cell \<Rightarrow> string" where
  \<comment> \<open>\<open>str(val)\<close>\<close>
  "str_cell c = (case c of NaN \<Rightarrow> ''nan'' | Str s \<Rightarrow> s)"

definition series_get :: "series \<Rightarrow> string \<Rightarrow> cell \<Rightarrow> cell" where
  \<comment> \<open>\<open>row.get(col, default)\<close>: the default only when the frame has no such column\<close>
  "series_get row col d = (case map_of row col of Some c \<Rightarrow> c | None \<Rightarrow> d)"

type_synonym grouped = "(string \<times> (string \<times> string list) list) list"

definition group_add :: "string \<Rightarrow> string \<Rightarrow> string \<Rightarrow> grouped \<Rightarrow> grouped" where
  \<comment> \<open>\<open>grouped[filename][col].append(v)\<close> on a \<open>defaultdict\<close> of \<open>defaultdict(list)\<close>\<close>
  "group_add filename col v grouped =
     (let data = (case map_of grouped filename of Some d \<Rightarrow> d | None \<Rightarrow> []);
          vals = (case map_of data col of Some vs \<Rightarrow> vs | None \<Rightarrow> [])
      in AList.update filename (AList.update col (vals @ [v]) data) grouped)"

fun row_cells :: "string \<Rightarrow> series \<Rightarrow> grouped \<Rightarrow> grouped" where
  \<comment> \<open>\<open>for col, val in row.items(): if pd.notna(val): ...\<close>\<close>
  "row_cells filename [] grouped = grouped"
| "row_cells filename ((col, val) # rest) grouped =
     (case val of
        NaN \<Rightarrow> row_cells filename rest grouped
      | Str s \<Rightarrow> row_cells filename rest (group_add filename col (strip s) grouped))"

definition row_filename :: "series \<Rightarrow> string" where
  \<comment> \<open>\<open>str(row.get("Filename", "")).strip().lower()\<close>\<close>
  "row_filename row = lower (strip (str_cell (series_get row ''Filename'' (Str []))))"

fun group_rows :: "frame \<Rightarrow> grouped \<Rightarrow> grouped" where
  \<comment> \<open>\<open>for _, row in df.iterrows()\<close>\<close>
  "group_rows [] grouped = grouped"
| "group_rows (row # rows) grouped = group_rows rows (row_cells (row_filename row) row grouped)"

fun merged_row_loop :: "(string \<times> string list) list \<Rightarrow> fields \<Rightarrow> fields" where
  \<comment> \<open>\<open>for col, values in data.items(): merged_row[col] = "\n".join(sorted(set(values)))\<close>\<close>
  "merged_row_loop [] merged_row = merged_row"
| "merged_row_loop ((col, vals) # rest) merged_row =
     merged_row_loop rest (AList.update col (join [CHR 0x0A] (sort (remdups vals))) merged_row)"

definition merged_rows :: "grouped \<Rightarrow> fields list" where
  "merged_rows grouped =
     map (\<lambda>(fname, data). merged_row_loop data [(''Filename'', fname)]) grouped"

fun first_seen :: "string list \<Rightarrow> string list \<Rightarrow> string list" where
  \<comment> \<open>the elements of a list in the order of their first occurrence\<close>
  "first_seen [] seen = seen"
| "first_seen (x # xs) seen = first_seen xs (if x \<in> set seen then seen else seen @ [x])"

definition data_frame :: "fields list \<Rightarrow> frame" where
  \<comment> \<open>\<open>pd.DataFrame(rows)\<close> for a list of dictionaries: the columns are the keys in the order
      of their first occurrence, and a key that a row lacks is a missing cell\<close>
  "data_frame rows =
     (let columns = first_seen (concat (map (map fst) rows)) []
      in map (\<lambda>row. map (\<lambda>c. (c, case map_of row c of Some v \<Rightarrow> Str v | None \<Rightarrow> NaN)) columns)
           rows)"

definition merge_excel_rows :: "frame \<Rightarrow> frame" where
  "merge_excel_rows df = data_frame (merged_rows (group_rows df []))"

section \<open>The comparison\<close>

definition COLUMN_MAPPING :: "(string \<times> string) list" where
  "COLUMN_MAPPING =
     [(''Excel_ID'', ''ID''), (''Excel_Objective'', ''Objective''), (''Excel_Author'', ''Author'')]"

datatype pyval = PStr string | PInt int | PFloat rat | PNaN

type_synonym entry = "(string \<times> pyval) list"

definition strip_filename_column :: "frame \<Rightarrow> py_error + frame" where
  \<comment> \<open>\<open>df["Filename"] = df["Filename"].str.strip()\<close>; a frame made from an empty list has no
      column at all, and \<open>df["Filename"]\<close> raises \<open>KeyError\<close>\<close>
  "strip_filename_column df =
     (if df = [] then Inl KeyError
      else if list_ex (\<lambda>row. map_of row ''Filename'' = None) df then Inl KeyError
      else Inr (map (\<lambda>row. AList.update ''Filename''
                       (case map_of row ''Filename'' of
                          Some (Str s) \<Rightarrow> Str (strip s)
                        | _ \<Rightarrow> NaN) row) df))"

fun folder_loop ::
  "string \<Rightarrow> ('c \<Rightarrow> py_error + fields) \<Rightarrow> string \<Rightarrow> (string \<times> 'c) list \<Rightarrow> fields list
     \<Rightarrow> py_error + fields list" where
  \<comment> \<open>\<open>for fname in os.listdir(folder)\<close>: a folder is the list of its file names, each with
      what the extractor reads from it\<close>
  "folder_loop ext extractor filetype [] all_files = Inr all_files"
| "folder_loop ext extractor filetype ((fname, content) # rest) all_files =
     (if \<not> endswith fname ext then folder_loop ext extractor filetype rest all_files
      else
        (case extractor content of
           Inl e \<Rightarrow> Inl e
         | Inr data \<Rightarrow>
             folder_loop ext extractor filetype rest
               (all_files
                @ [AList.update ''FileType'' filetype (AList.update ''Filename'' fname data)])))"

definition collect_files ::
  "(string \<times> string) list \<Rightarrow> (string \<times> string) list \<Rightarrow> (string \<times> document) list
     \<Rightarrow> py_error + fields list" where
  "collect_files python_folder java_folder word_folder =
     (case folder_loop ''.py'' extract_comment_header ''Python'' python_folder [] of
        Inl e \<Rightarrow> Inl e
      | Inr files1 \<Rightarrow>
          (case folder_loop ''.java'' (\<lambda>text. Inr (extract_java_header text)) ''Java''
                  java_folder files1 of
             Inl e \<Rightarrow> Inl e
           | Inr files2 \<Rightarrow>
               folder_loop ''.docx'' (\<lambda>doc. Inr (extract_word_header doc)) ''Word''
                 word_folder files2))"

fun excel_map_loop :: "frame \<Rightarrow> (string \<times> series) list \<Rightarrow> py_error + (string \<times> series) list"
  where
  \<comment> \<open>\<open>{str(row["Filename"]).strip().lower(): row for _, row in df.iterrows()}\<close>\<close>
  "excel_map_loop [] excel_map = Inr excel_map"
| "excel_map_loop (row # rows) excel_map =
     (case map_of row ''Filename'' of
        None \<Rightarrow> Inl KeyError
      | Some c \<Rightarrow> excel_map_loop rows (AList.update (lower (strip (str_cell c))) row excel_map))"

definition series_bool :: "series \<Rightarrow> py_error + bool" where
  \<comment> \<open>\<open>bool(row)\<close>: \<open>pandas\<close> raises \<open>ValueError\<close> ("The truth value of a Series is
      ambiguous") for every \<open>Series\<close>\<close>
  "series_bool row = Inl ValueError"

definition title_match :: "string \<Rightarrow> series option \<Rightarrow> py_error + pyval" where
  \<comment> \<open>\<open>similar(filename, excel_row["Filename"]) if excel_row is not None else 0\<close>\<close>
  "title_match filename excel_row =
     (case excel_row of
        None \<Rightarrow> Inr (PInt 0)
      | Some row \<Rightarrow>
          (case map_of row ''Filename'' of
             None \<Rightarrow> Inl KeyError
           | Some NaN \<Rightarrow> Inl AttributeError
           | Some (Str s) \<Rightarrow> Inr (PFloat (similar filename s))))"

definition dict_get :: "fields \<Rightarrow> string \<Rightarrow> string \<Rightarrow> string" where
  \<comment> \<open>\<open>d.get(k, default)\<close>\<close>
  "dict_get d k dflt = (case map_of d k of Some v \<Rightarrow> v | None \<Rightarrow> dflt)"

fun compare_loop ::
  "(string \<times> string) list \<Rightarrow> series \<Rightarrow> fields \<Rightarrow> string list \<times> string list
     \<Rightarrow> string list \<times> string list" where
  \<comment> \<open>\<open>for excel_col, extracted_key in COLUMN_MAPPING.items()\<close>, with the state
      \<open>(file_remarks, excel_remarks)\<close>\<close>
  "compare_loop [] excel_row file_data remarks = remarks"
| "compare_loop ((excel_col, extracted_key) # rest) excel_row file_data
     (file_remarks, excel_remarks) =
     (let expected = strip (str_cell (series_get excel_row excel_col (Str [])));
          actual = strip (dict_get file_data extracted_key [])
      in compare_loop rest excel_row file_data
           (if expected \<noteq> [] \<and> actual = []
            then (file_remarks @ [extracted_key @ '': missing''], excel_remarks)
            else if actual \<noteq> [] \<and> expected = []
            then (file_remarks, excel_remarks @ [extracted_key @ '': missing''])
            else if expected \<noteq> actual
            then (file_remarks @ [extracted_key @ '': mismatch''], excel_remarks)
            else (file_remarks, excel_remarks)))"

definition classify :: "string list \<Rightarrow> string list \<Rightarrow> string" where
  "classify file_remarks excel_remarks =
     (if file_remarks \<noteq> [] \<and> excel_remarks = [] then ''mismatch error''
      else if excel_remarks \<noteq> [] \<and> file_remarks = [] then ''missing errors''
      else if file_remarks \<noteq> [] \<and> excel_remarks \<noteq> [] then ''missing'' @ [CHR 0x0A] @ ''mismatch''
      else [])"

fun passthrough :: "fields \<Rightarrow> entry \<Rightarrow> entry" where
  \<comment> \<open>\<open>for k, v in file_data.items(): if k not in entry: entry[k] = v\<close>\<close>
  "passthrough [] entry = entry"
| "passthrough ((k, v) # rest) entry =
     passthrough rest (if map_of entry k = None then AList.update k (PStr v) entry else entry)"

definition finish_entry :: "entry \<Rightarrow> string \<Rightarrow> string list \<Rightarrow> string list \<Rightarrow> fields \<Rightarrow> entry"
  where
  \<comment> \<open>the end of the loop body: the error tag, the two remark columns, the other fields\<close>
  "finish_entry entry error excel_remarks file_remarks file_data =
     passthrough file_data
       (AList.update ''File Remarks'' (PStr (if file_remarks \<noteq> [] then join ''; '' file_remarks else []))
          (AList.update ''Excel Remarks''
             (PStr (if excel_remarks \<noteq> [] then join ''; '' excel_remarks else []))
             (AList.update ''Error'' (PStr error) entry)))"

definition new_entry :: "string \<Rightarrow> fields \<Rightarrow> pyval \<Rightarrow> entry" where
  "new_entry filename file_data score =
     [(''Filename'', PStr filename),
      (''FileType'', PStr (dict_get file_data ''FileType'' [])),
      (''Title Match %'', score)]"

definition compare_entry :: "entry \<Rightarrow> series option \<Rightarrow> fields \<Rightarrow> py_error + entry" where
  \<comment> \<open>the statement \<open>if excel_row: ... else: ...\<close> and the rest of the loop body\<close>
  "compare_entry entry excel_row file_data =
     (case excel_row of
        None \<Rightarrow> Inr (finish_entry entry ''filename missing in excel'' [] [] file_data)
      | Some row \<Rightarrow>
          (case series_bool row of
             Inl e \<Rightarrow> Inl e
           | Inr True \<Rightarrow>
               (case compare_loop COLUMN_MAPPING row file_data ([], []) of
                  (file_remarks, excel_remarks) \<Rightarrow>
                    Inr (finish_entry entry (classify file_remarks excel_remarks)
                           excel_remarks file_remarks file_data))
           | Inr False \<Rightarrow>
               Inr (finish_entry entry ''filename missing in excel'' [] [] file_data)))"

definition process_file :: "(string \<times> series) list \<Rightarrow> fields \<Rightarrow> py_error + entry" where
  \<comment> \<open>the body of \<open>for file_data in all_files\<close>\<close>
  "process_file excel_map file_data =
     (let filename = strip (dict_get file_data ''Filename'' []);
          filename_lower = lower filename;
          excel_row = map_of excel_map filename_lower
      in (case title_match filename excel_row of
            Inl e \<Rightarrow> Inl e
          | Inr score \<Rightarrow> compare_entry (new_entry filename file_data score) excel_row file_data))"

fun files_loop ::
  "(string \<times> series) list \<Rightarrow> fields list \<Rightarrow> entry list \<Rightarrow> string list
     \<Rightarrow> py_error + entry list \<times> string list" where
  \<comment> \<open>\<open>for file_data in all_files\<close>, with the state \<open>(results, processed_files)\<close>\<close>
  "files_loop excel_map [] results processed_files = Inr (results, processed_files)"
| "files_loop excel_map (file_data # rest) results processed_files =
     (case process_file excel_map file_data of
        Inl e \<Rightarrow> Inl e
      | Inr entry \<Rightarrow>
          files_loop excel_map rest (results @ [entry])
            (set_add (lower (strip (dict_get file_data ''Filename'' []))) processed_files))"

fun residual_loop :: "frame \<Rightarrow> string list \<Rightarrow> entry list \<Rightarrow> py_error + entry list" where
  \<comment> \<open>\<open>for filename in df["Filename"]\<close>\<close>
  "residual_loop [] processed_files results = Inr results"
| "residual_loop (row # rows) processed_files results =
     (case map_of row ''Filename'' of
        None \<Rightarrow> Inl KeyError
      | Some c \<Rightarrow>
          residual_loop rows processed_files
            (if lower (strip (str_cell c)) \<notin> set processed_files
             then results
                  @ [[(''Filename'', case c of Str s \<Rightarrow> PStr s | NaN \<Rightarrow> PNaN),
                      (''Error'', PStr ''file not found'')]]
             else results))"

definition reconcile :: "frame \<Rightarrow> fields list \<Rightarrow> py_error + entry list" where
  \<comment> \<open>\<open>main\<close> from \<open>results = []\<close> on: \<open>df\<close> is the normalized ledger\<close>
  "reconcile df all_files =
     (case excel_map_loop df [] of
        Inl e \<Rightarrow> Inl e
      | Inr excel_map \<Rightarrow>
          (case files_loop excel_map all_files [] [] of
             Inl e \<Rightarrow> Inl e
           | Inr (results, processed_files) \<Rightarrow> residual_loop df processed_files results))"

definition main ::
  "frame \<Rightarrow> (string \<times> string) list \<Rightarrow> (string \<times> string) list \<Rightarrow> (string \<times> document) list
     \<Rightarrow> py_error + entry list" where
  \<comment> \<open>the rows that \<open>main\<close> hands to \<open>to_excel\<close>, from the frame that \<open>read_excel\<close> returned and
      the three folders\<close>
  "main input_excel python_folder java_folder word_folder =
     (case strip_filename_column (merge_excel_rows input_excel) of
        Inl e \<Rightarrow> Inl e
      | Inr df \<Rightarrow>
          (case collect_files python_folder java_folder word_folder of
             Inl e \<Rightarrow> Inl e
           | Inr all_files \<Rightarrow> reconcile df all_files))"

section \<open>Notions for the properties of the ledger\<close>

text \<open>
  \<open>collected g f c\<close> is the set of the values that \<open>grouped[f][c]\<close> holds, empty when there is
  no such entry; \<open>grouped_ok\<close> says that \<open>grouped\<close> is a dictionary of dictionaries of
  non-empty lists, as \<open>defaultdict\<close> and \<open>append\<close> make it.
\<close>

definition collected :: "grouped \<Rightarrow> string \<Rightarrow> string \<Rightarrow> string set" where
  "collected g f c =
     (case map_of g f of
        None \<Rightarrow> {}
      | Some d \<Rightarrow> (case map_of d c of None \<Rightarrow> {} | Some vs \<Rightarrow> set vs))"

definition grouped_ok :: "grouped \<Rightarrow> bool" where
  "grouped_ok g =
     (distinct (map fst g)
      \<and> list_all (\<lambda>(f, d). distinct (map fst d) \<and> d \<noteq> [] \<and> list_all (\<lambda>(c, vs). vs \<noteq> []) d) g)"

text \<open>
  \<open>fill C m\<close> is a row of \<open>pd.DataFrame\<close> as a mapping: the columns are \<open>C\<close>, a column that
  the dictionary \<open>m\<close> lacks is a missing cell.  \<open>cells_of row\<close> is what a row that makes a
  group of its own contributes to \<open>grouped\<close>, and \<open>stripped row\<close> maps a column to its
  trimmed value.
\<close>

definition fill :: "string set \<Rightarrow> (string \<rightharpoonup> string) \<Rightarrow> (string \<rightharpoonup> cell)" where
  "fill C m = (\<lambda>c. if c \<in> C then Some (case m c of Some v \<Rightarrow> Str v | None \<Rightarrow> NaN) else None)"

fun cells_of :: "series \<Rightarrow> (string \<times> string list) list" where
  "cells_of [] = []"
| "cells_of ((c, NaN) # row) = cells_of row"
| "cells_of ((c, Str s) # row) = (c, [strip s]) # cells_of row"

definition stripped :: "series \<Rightarrow> (string \<rightharpoonup> string)" where
  "stripped row = (\<lambda>c. case map_of row c of Some (Str s) \<Rightarrow> Some (strip s) | _ \<Rightarrow> None)"

section \<open>Properties of the matcher\<close>

text \<open>
  The block that \<open>find_longest_match\<close> returns lies inside the range it was asked to search;
  an empty block sits at the lower corner of the range.
\<close>

definition best_ok :: "nat \<Rightarrow> nat \<Rightarrow> nat \<Rightarrow> nat \<Rightarrow> match \<Rightarrow> bool" where
  "best_ok alo ahi blo bhi m =
     (case m of (bi, bj, bs) \<Rightarrow>
        alo \<le> bi \<and> blo \<le> bj \<and>
        (if bs = 0 then bi = alo \<and> bj = blo else bi + bs \<le> ahi \<and> bj + bs \<le> bhi))"

lemma inner_loop_bounds:
  assumes "alo \<le> i" "i < ahi"
    and "\<forall>j. j2len j \<le> i - alo \<and> j2len j \<le> j + 1 - blo"
    and "\<forall>j. new j \<le> i + 1 - alo \<and> new j \<le> j + 1 - blo"
    and "best_ok alo ahi blo bhi best"
    and "inner_loop i blo bhi j2len js (new, best) = (new', best')"
  shows "(\<forall>j. new' j \<le> i + 1 - alo \<and> new' j \<le> j + 1 - blo) \<and> best_ok alo ahi blo bhi best'"
  using assms(4-)
proof (induction js arbitrary: new best)
  case Nil
  then show ?case by auto
next
  case (Cons j js)
  obtain bi bj bs where best: "best = (bi, bj, bs)" by (metis prod_cases3)
  show ?case
  proof (cases "j < blo")
    case True
    with Cons.prems have "inner_loop i blo bhi j2len js (new, best) = (new', best')"
      by (simp add: best)
    from Cons.IH[OF Cons.prems(1) Cons.prems(2) this] show ?thesis .
  next
    case False
    show ?thesis
    proof (cases "bhi \<le> j")
      case True
      with False Cons.prems show ?thesis by (simp add: best)
    next
      case jlt: False
      define k where "k = (if j = 0 then 0 else j2len (j - 1)) + 1"
      have "j2len (j - 1) \<le> i - alo" using assms(3) by blast
      then have k1: "k \<le> i + 1 - alo" using assms(1) by (auto simp: k_def)
      have "j2len (j - 1) \<le> j - 1 + 1 - blo" using assms(3) by blast
      then have k2: "k \<le> j + 1 - blo" using False by (auto simp: k_def)
      have k0: "0 < k" by (simp add: k_def)
      let ?new = "new(j := k)"
      let ?best = "if bs < k then (i + 1 - k, j + 1 - k, k) else (bi, bj, bs)"
      have step: "inner_loop i blo bhi j2len js (?new, ?best) = (new', best')"
        using Cons.prems(3) False jlt by (simp add: best k_def Let_def split: if_splits)
      have n: "\<forall>j. ?new j \<le> i + 1 - alo \<and> ?new j \<le> j + 1 - blo"
        using Cons.prems(1) k1 k2 by auto
      have b: "best_ok alo ahi blo bhi ?best"
        using k0 k1 k2 assms(1,2) False jlt Cons.prems(2) by (auto simp: best best_ok_def)
      from Cons.IH[OF n b step] show ?thesis .
    qed
  qed
qed

lemma outer_loop_bounds:
  assumes "alo \<le> i"
    and "\<forall>j. j2len j \<le> i - alo \<and> j2len j \<le> j + 1 - blo"
    and "best_ok alo ahi blo bhi best"
  shows "best_ok alo ahi blo bhi (snd (outer_loop a b blo bhi [i..<ahi] (j2len, best)))"
  using assms
proof (induction "ahi - i" arbitrary: i j2len best)
  case 0
  then show ?case by simp
next
  case (Suc n)
  then have lt: "i < ahi" by simp
  obtain new' best' where
    r: "inner_loop i blo bhi j2len (b2j b (a ! i)) (\<lambda>j. 0, best) = (new', best')"
    by (metis surj_pair)
  have "(\<forall>j. new' j \<le> i + 1 - alo \<and> new' j \<le> j + 1 - blo) \<and> best_ok alo ahi blo bhi best'"
    by (rule inner_loop_bounds[OF Suc.prems(1) lt Suc.prems(2) _ Suc.prems(3) r]) simp
  then have n: "\<forall>j. new' j \<le> Suc i - alo \<and> new' j \<le> j + 1 - blo"
    and b: "best_ok alo ahi blo bhi best'"
    by auto
  have "n = ahi - Suc i" using Suc.hyps(2) by simp
  from Suc.hyps(1)[OF this _ n b] Suc.prems(1)
  have "best_ok alo ahi blo bhi (snd (outer_loop a b blo bhi [Suc i..<ahi] (new', best')))"
    by simp
  then show ?case using lt r by (simp add: upt_conv_Cons)
qed

lemma extend_left_bounds:
  "best_ok alo ahi blo bhi m \<Longrightarrow> best_ok alo ahi blo bhi (extend_left a b alo blo m)"
proof (induction a b alo blo m rule: extend_left.induct)
  case (1 a b alo blo besti bestj bestsize)
  show ?case
  proof (cases "alo < besti \<and> blo < bestj \<and> a ! (besti - 1) = b ! (bestj - 1)")
    case True
    have "best_ok alo ahi blo bhi (besti - 1, bestj - 1, bestsize + 1)"
      using "1.prems" True by (auto simp: best_ok_def split: if_splits)
    from "1.IH"[OF True this] True show ?thesis by (subst extend_left.simps) simp
  next
    case False
    then show ?thesis using "1.prems" by (subst extend_left.simps) auto
  qed
qed

lemma extend_right_bounds:
  "best_ok alo ahi blo bhi m \<Longrightarrow> best_ok alo ahi blo bhi (extend_right a b ahi bhi m)"
proof (induction a b ahi bhi m rule: extend_right.induct)
  case (1 a b ahi bhi besti bestj bestsize)
  show ?case
  proof (cases "besti + bestsize < ahi \<and> bestj + bestsize < bhi
         \<and> a ! (besti + bestsize) = b ! (bestj + bestsize)")
    case True
    have "best_ok alo ahi blo bhi (besti, bestj, bestsize + 1)"
      using "1.prems" True by (auto simp: best_ok_def split: if_splits)
    from "1.IH"[OF True this] True show ?thesis by (subst extend_right.simps) simp
  next
    case False
    then show ?thesis using "1.prems" by (subst extend_right.simps) auto
  qed
qed

lemma find_longest_match_bounds:
  "best_ok alo ahi blo bhi (find_longest_match a b alo ahi blo bhi)"
  unfolding find_longest_match_def
  by (intro extend_right_bounds extend_left_bounds outer_loop_bounds) (auto simp: best_ok_def)

lemma blocks_loop_measure:
  assumes "best_ok alo ahi blo bhi (i, j, k)" and "k \<noteq> 0"
  shows "(\<Sum>(alo, ahi, blo, bhi)\<leftarrow>(if i + k < ahi \<and> j + k < bhi then [(i + k, ahi, j + k, bhi)] else [])
             @ (if alo < i \<and> blo < j then [(alo, i, blo, j)] else []). 2 * (ahi - alo) + 1)
         < 2 * (ahi - alo) + 1"
  using assms by (auto simp: best_ok_def)

termination blocks_loop
proof (relation "measure (\<lambda>(a, b, queue, blocks).
          sum_list (map (\<lambda>(alo, ahi, blo, bhi). 2 * (ahi - alo) + 1) queue))", goal_cases)
  case 1
  then show ?case by simp
next
  case (2 a b alo ahi blo bhi queue matching_blocks i y j k)
  then have "best_ok alo ahi blo bhi (i, j, k)"
    using find_longest_match_bounds[of alo ahi blo bhi a b] by simp
  from blocks_loop_measure[OF this] 2(3) show ?case by simp
next
  case 3
  then show ?case by simp
qed

section \<open>Properties of the string functions\<close>

lemma dropWhile_idem: "dropWhile P (dropWhile P xs) = dropWhile P xs"
  by (induction xs) auto

lemma lstrip_not_space: "lstrip s \<noteq> [] \<Longrightarrow> \<not> isspace (hd (lstrip s))"
  unfolding lstrip_def by (simp add: hd_dropWhile)

lemma strip_Nil [simp]: "strip [] = []"
  by (simp add: strip_def lstrip_def rstrip_def)

lemma strip_ends:
  "strip s \<noteq> [] \<Longrightarrow> \<not> isspace (hd (strip s)) \<and> \<not> isspace (last (strip s))"
proof -
  assume ne: "strip s \<noteq> []"
  let ?l = "dropWhile isspace s"
  have s: "strip s = rev (dropWhile isspace (rev ?l))"
    by (simp add: strip_def lstrip_def rstrip_def)
  from ne s have r: "dropWhile isspace (rev ?l) \<noteq> []" by simp
  then have "\<not> isspace (hd (dropWhile isspace (rev ?l)))" by (rule hd_dropWhile)
  then have la: "\<not> isspace (last (strip s))" using r by (simp add: s last_rev)
  have lne: "?l \<noteq> []"
  proof
    assume "?l = []"
    then show False using r by (auto dest: set_dropWhileD)
  qed
  then have h: "\<not> isspace (hd ?l)" by (rule hd_dropWhile)
  obtain ys where ys: "rev ?l = takeWhile isspace (rev ?l) @ ys" "ys = dropWhile isspace (rev ?l)"
    by simp
  have "?l = rev ys @ rev (takeWhile isspace (rev ?l))"
    using ys(1) by (metis rev_append rev_rev_ident)
  moreover have "rev ys \<noteq> []" using r ys(2) by simp
  ultimately have "hd ?l = hd (rev ys)" by (metis hd_append2)
  then have "\<not> isspace (hd (strip s))" using h s ys(2) by simp
  with la show ?thesis by simp
qed

lemma strip_fixed:
  assumes "s = [] \<or> (\<not> isspace (hd s) \<and> \<not> isspace (last s))"
  shows "strip s = s"
proof (cases "s = []")
  case True
  then show ?thesis by simp
next
  case False
  with assms have h: "\<not> isspace (hd s)" and l: "\<not> isspace (last s)" by auto
  from False h have "dropWhile isspace s = s" by (cases s) auto
  moreover from False l have "dropWhile isspace (rev s) = rev s"
    by (cases "rev s") (auto simp: last_rev hd_rev)
  ultimately show ?thesis by (simp add: strip_def lstrip_def rstrip_def)
qed

lemma strip_strip [simp]: "strip (strip s) = strip s"
  by (rule strip_fixed) (use strip_ends in blast)

lemma set_strip: "set (strip s) \<subseteq> set s"
proof -
  have "set (strip s) \<subseteq> set (dropWhile isspace s)"
    unfolding strip_def lstrip_def rstrip_def using set_dropWhileD by fastforce
  also have "\<dots> \<subseteq> set s" using set_dropWhileD by fastforce
  finally show ?thesis .
qed

lemma contains_char: "contains [c] s \<longleftrightarrow> c \<in> set s"
  by (induction s) (auto simp: startswith_def)

section \<open>The comment-header extractor\<close>

lemma comment_loop_colonless_none:
  assumes "\<forall>l\<in>set cs. startswith (strip l) ''#'' \<and> \<not> contains '':'' (strip (lstrip_chars ''#'' l))"
  shows "comment_loop (cs @ rest) data None = comment_loop rest data None"
  using assms by (induction cs) (simp_all add: Let_def)

lemma comment_loop_colonless_empty_key:
  assumes "\<forall>l\<in>set cs. startswith (strip l) ''#'' \<and> \<not> contains '':'' (strip (lstrip_chars ''#'' l))"
  shows "comment_loop (cs @ rest) data (Some []) = comment_loop rest data (Some [])"
  using assms by (induction cs) (simp_all add: Let_def)

lemma comment_loop_colonless_key:
  assumes "\<forall>l\<in>set cs. startswith (strip l) ''#'' \<and> \<not> contains '':'' (strip (lstrip_chars ''#'' l))"
    and "k \<noteq> []"
  shows "comment_loop (cs @ rest) (AList.update k v data) (Some k)
           = comment_loop rest
               (AList.update k
                  (foldl (\<lambda>v l. v @ [CHR 0x0A] @ strip (lstrip_chars ''#'' l)) v cs) data)
               (Some k)"
  using assms(1)
proof (induction cs arbitrary: v)
  case Nil
  show ?case by simp
next
  case (Cons l cs)
  from Cons.prems have l: "startswith (strip l) ''#''"
    "\<not> contains '':'' (strip (lstrip_chars ''#'' l))"
    and cs: "\<forall>l\<in>set cs. startswith (strip l) ''#''
               \<and> \<not> contains '':'' (strip (lstrip_chars ''#'' l))"
    by auto
  have "comment_loop ((l # cs) @ rest) (AList.update k v data) (Some k)
      = comment_loop (cs @ rest)
          (AList.update k (v @ [CHR 0x0A] @ strip (lstrip_chars ''#'' l)) data) (Some k)"
    using l assms(2) by (simp add: Let_def update_conv')
  with Cons.IH[OF cs] show ?case by simp
qed

text \<open>
  Claim C9, as amended.  A comment line with a colon makes its trimmed key the current key,
  whatever the key before was.  The comment lines without a colon that follow it are appended
  to the value of that key, each after a line feed, when the key is not the empty string;
  when the key is the empty string they are dropped.  Comment lines without a colon that
  come before any key are dropped too.  So the file with the lines \<open># ID: 42\<close> and
  \<open># more text\<close> yields exactly the mapping of \<open>ID\<close> to \<open>42\<close>, a line feed and
  \<open>more text\<close>.
\<close>

theorem comment_header_continuation:
  assumes "\<forall>l\<in>set cs. startswith (strip l) ''#'' \<and> \<not> contains '':'' (strip (lstrip_chars ''#'' l))"
    and "startswith (strip l0) ''#''"
    and "contains '':'' (strip (lstrip_chars ''#'' l0))"
    and "split_once (CHR '':'') (strip (lstrip_chars ''#'' l0)) = (key, val)"
  shows "comment_loop (l0 # cs @ rest) data current_key
           = comment_loop rest
               (AList.update (strip key)
                  (if strip key = [] then strip val
                   else foldl (\<lambda>v l. v @ [CHR 0x0A] @ strip (lstrip_chars ''#'' l)) (strip val) cs)
                  data)
               (Some (strip key))
       \<and> comment_loop (cs @ rest) data None = comment_loop rest data None"
proof -
  have 1: "comment_loop (l0 # cs @ rest) data current_key
      = comment_loop (cs @ rest) (AList.update (strip key) (strip val) data) (Some (strip key))"
    using assms(2,3,4) by (simp add: Let_def)
  have 2: "comment_loop (cs @ rest) (AList.update (strip key) (strip val) data) (Some (strip key))
      = comment_loop rest
               (AList.update (strip key)
                  (if strip key = [] then strip val
                   else foldl (\<lambda>v l. v @ [CHR 0x0A] @ strip (lstrip_chars ''#'' l)) (strip val) cs)
                  data)
               (Some (strip key))"
  proof (cases "strip key = []")
    case True
    then show ?thesis using comment_loop_colonless_empty_key[OF assms(1)] by simp
  next
    case False
    then show ?thesis using comment_loop_colonless_key[OF assms(1) False] by simp
  qed
  from 1 2 comment_loop_colonless_none[OF assms(1)] show ?thesis by simp
qed

text \<open>
  Claim C9 as stated appends every comment line without a colon that follows a key.  After
  the line \<open># : v\<close> the current key is the empty string, and the line \<open># more\<close> is dropped.
\<close>

theorem comment_header_continuation_counterexample:
  "extract_comment_header (''# : v'' @ [CHR 0x0A] @ ''# more'' @ [CHR 0x0A]) = Inr [([], ''v'')]"
  by (simp add: extract_comment_header_def file_lines_def strip_def lstrip_def rstrip_def
      isspace_def startswith_def lstrip_chars_def split_once_def Let_def)

theorem comment_header_continuation_witness:
  "startswith (strip (''# more text'' @ [CHR 0x0A])) ''#''
   \<and> \<not> contains '':'' (strip (lstrip_chars ''#'' (''# more text'' @ [CHR 0x0A])))
   \<and> startswith (strip (''# ID: 42'' @ [CHR 0x0A])) ''#''
   \<and> contains '':'' (strip (lstrip_chars ''#'' (''# ID: 42'' @ [CHR 0x0A])))
   \<and> split_once (CHR '':'') (strip (lstrip_chars ''#'' (''# ID: 42'' @ [CHR 0x0A])))
       = (''ID'', '' 42'')
   \<and> extract_comment_header (''# ID: 42'' @ [CHR 0x0A] @ ''# more text'' @ [CHR 0x0A])
       = Inr [(''ID'', ''42'' @ [CHR 0x0A] @ ''more text'')]
   \<and> comment_loop [''# more text'' @ [CHR 0x0A]] [] None = Inr []"
proof -
  have f: "file_lines (''# ID: 42'' @ [CHR 0x0A] @ ''# more text'' @ [CHR 0x0A])
      = [''# ID: 42'' @ [CHR 0x0A], ''# more text'' @ [CHR 0x0A]]"
    by (simp add: file_lines_def)
  have h1: "\<forall>l\<in>set [''# more text'' @ [CHR 0x0A]].
      startswith (strip l) ''#'' \<and> \<not> contains '':'' (strip (lstrip_chars ''#'' l))"
    by (simp add: strip_def lstrip_def rstrip_def isspace_def startswith_def lstrip_chars_def)
  have h2: "startswith (strip (''# ID: 42'' @ [CHR 0x0A])) ''#''"
    by (simp add: strip_def lstrip_def rstrip_def isspace_def startswith_def)
  have h3: "contains '':'' (strip (lstrip_chars ''#'' (''# ID: 42'' @ [CHR 0x0A])))"
    by (simp add: strip_def lstrip_def rstrip_def isspace_def startswith_def lstrip_chars_def)
  have h4: "split_once (CHR '':'') (strip (lstrip_chars ''#'' (''# ID: 42'' @ [CHR 0x0A])))
       = (''ID'', '' 42'')"
    by (simp add: strip_def lstrip_def rstrip_def isspace_def lstrip_chars_def split_once_def)
  have s: "strip ''ID'' = ''ID''" "strip '' 42'' = ''42''"
    "strip (lstrip_chars ''#'' (''# more text'' @ [CHR 0x0A])) = ''more text''"
    by (simp_all add: strip_def lstrip_def rstrip_def isspace_def lstrip_chars_def)
  from comment_header_continuation[OF h1 h2 h3 h4, of "[]" "[]" None] s
  have "comment_loop [''# ID: 42'' @ [CHR 0x0A], ''# more text'' @ [CHR 0x0A]] [] None
          = Inr [(''ID'', ''42'' @ [CHR 0x0A] @ ''more text'')]
      \<and> comment_loop [''# more text'' @ [CHR 0x0A]] [] None = Inr []"
    by (simp del: comment_loop.simps(2))
  with f h1 h2 h3 h4 show ?thesis by (simp add: extract_comment_header_def del: comment_loop.simps(2))
qed

section \<open>The literal-header extractor\<close>

lemma set_replace_delete: "set (replace old [] s) \<subseteq> set s"
proof (induction old "[] :: string" s rule: replace.induct)
  case (1 old)
  then show ?case by simp
next
  case (2 old c s)
  show ?case
  proof (cases "old \<noteq> [] \<and> startswith (c # s) old")
    case True
    with 2 have "set (replace old [] (drop (length old) (c # s))) \<subseteq> set (drop (length old) (c # s))"
      by simp
    also have "\<dots> \<subseteq> set (c # s)" by (rule set_drop_subset)
    finally show ?thesis using True by simp
  next
    case False
    with 2 show ?thesis by auto
  qed
qed

lemma set_split_aux: "p \<in> set (split_aux sep acc s) \<Longrightarrow> set p \<subseteq> set acc \<union> set s"
proof (induction sep acc s rule: split_aux.induct)
  case (1 sep acc)
  then show ?case by simp
next
  case (2 sep acc c s)
  show ?case
  proof (cases "sep \<noteq> [] \<and> startswith (c # s) sep")
    case True
    with "2.prems" have "p = rev acc \<or> p \<in> set (split_aux sep [] (drop (length sep) (c # s)))"
      by simp
    then show ?thesis
    proof
      assume "p = rev acc"
      then show ?thesis by auto
    next
      assume "p \<in> set (split_aux sep [] (drop (length sep) (c # s)))"
      with "2.IH"(1) True have "set p \<subseteq> set (drop (length sep) (c # s))" by simp
      also have "\<dots> \<subseteq> set (c # s)" by (rule set_drop_subset)
      finally show ?thesis by auto
    qed
  next
    case False
    with 2 show ?thesis by auto
  qed
qed

lemma java_parse_no_colon:
  "\<forall>l \<in> set ls. \<not> contains '':'' l \<Longrightarrow> java_parse ls data = data"
  by (induction ls arbitrary: data) auto

lemma java_scan_before:
  "\<forall>l \<in> set before. \<not> contains header_marker l
   \<Longrightarrow> java_scan (before @ rest) False lines = java_scan rest False lines"
  by (induction before arbitrary: lines) auto

lemma java_scan_after:
  "\<forall>l \<in> set after. \<not> contains header_terminator l
   \<Longrightarrow> java_scan after True lines
       = lines @ map strip (filter (\<lambda>l. \<not> contains header_marker l) after)"
  by (induction after arbitrary: lines) auto

lemma clean_header_no_colon:
  assumes "\<forall>l \<in> set ls. CHR '':'' \<notin> set l"
  shows "\<forall>p \<in> set (split escaped_newline (clean_header (map strip ls))). \<not> contains '':'' p"
proof
  fix p
  assume "p \<in> set (split escaped_newline (clean_header (map strip ls)))"
  then have "set p \<subseteq> set (clean_header (map strip ls))"
    unfolding split_def using set_split_aux by fastforce
  also have "\<dots> \<subseteq> set (concat (map strip ls))"
    unfolding clean_header_def using set_replace_delete by (meson subset_trans)
  also have "\<dots> \<subseteq> (\<Union>l \<in> set ls. set l)"
    using set_strip by auto
  finally have "CHR '':'' \<notin> set p" using assms by auto
  then show "\<not> contains '':'' p" by (simp add: contains_char)
qed

text \<open>
  Claim C5, as amended.  When a line of the file holds the marker phrase and no later line
  holds the terminator, the extractor returns the mapping parsed from all the lines after the
  first marker line, to the end of the file (lines that hold the marker again are skipped).
  That mapping is empty when none of these lines holds a colon.  The extractor is a total
  function: it has no failing branch.
\<close>

theorem java_header_without_terminator:
  assumes "file_lines text = before @ marker_line # after"
    and "\<forall>l \<in> set before. \<not> contains header_marker l"
    and "contains header_marker marker_line"
    and "\<forall>l \<in> set after. \<not> contains header_terminator l"
  shows "extract_java_header text
           = java_parse
               (split escaped_newline
                  (clean_header (map strip (filter (\<lambda>l. \<not> contains header_marker l) after)))) []
         \<and> ((\<forall>l \<in> set after. \<not> contains '':'' l) \<longrightarrow> extract_java_header text = [])"
proof -
  have "java_scan (file_lines text) False [] = java_scan (marker_line # after) False []"
    using assms(1,2) by (simp add: java_scan_before)
  also have "\<dots> = java_scan after True []" using assms(3) by simp
  also have "\<dots> = map strip (filter (\<lambda>l. \<not> contains header_marker l) after)"
    using assms(4) by (simp add: java_scan_after)
  finally have eq: "extract_java_header text
           = java_parse
               (split escaped_newline
                  (clean_header (map strip (filter (\<lambda>l. \<not> contains header_marker l) after)))) []"
    by (simp add: extract_java_header_def)
  have "extract_java_header text = []" if "\<forall>l \<in> set after. \<not> contains '':'' l"
  proof -
    from that have "\<forall>l \<in> set (filter (\<lambda>l. \<not> contains header_marker l) after). CHR '':'' \<notin> set l"
      by (simp add: contains_char)
    from clean_header_no_colon[OF this] show ?thesis
      unfolding eq by (rule java_parse_no_colon)
  qed
  with eq show ?thesis by blast
qed

text \<open>
  Claim C5 as stated fails: the marker line followed by the one line \<open>"ID: 5"\<close>, with no
  terminator anywhere, gives the mapping of \<open>ID\<close> to \<open>5\<close>.
\<close>

theorem java_header_without_terminator_counterexample:
  "file_lines (''public static String Header ='' @ [CHR 0x0A, CHR 0x22] @ ''ID: 5'' @ [CHR 0x22, CHR 0x0A])
     = [''public static String Header ='' @ [CHR 0x0A], [CHR 0x22] @ ''ID: 5'' @ [CHR 0x22, CHR 0x0A]]
   \<and> contains header_marker (''public static String Header ='' @ [CHR 0x0A])
   \<and> \<not> contains header_terminator ([CHR 0x22] @ ''ID: 5'' @ [CHR 0x22, CHR 0x0A])
   \<and> extract_java_header
        (''public static String Header ='' @ [CHR 0x0A, CHR 0x22] @ ''ID: 5'' @ [CHR 0x22, CHR 0x0A])
       = [(''ID'', ''5'')]
   \<and> extract_java_header
        (''public static String Header ='' @ [CHR 0x0A, CHR 0x22] @ ''ID: 5'' @ [CHR 0x22, CHR 0x0A])
       \<noteq> []"
  by (simp add: extract_java_header_def file_lines_def header_marker_def header_terminator_def
      startswith_def strip_def lstrip_def rstrip_def isspace_def clean_header_def
      escaped_newline_def split_def split_once_def JAVA_KEY_MAP_def lower_def lower_char_def)

theorem java_header_without_terminator_witness:
  "file_lines (''public static String Header ='' @ [CHR 0x0A, CHR 0x22] @ ''hello'' @ [CHR 0x22, CHR 0x0A])
     = [''public static String Header ='' @ [CHR 0x0A], [CHR 0x22] @ ''hello'' @ [CHR 0x22, CHR 0x0A]]
   \<and> contains header_marker (''public static String Header ='' @ [CHR 0x0A])
   \<and> \<not> contains header_terminator ([CHR 0x22] @ ''hello'' @ [CHR 0x22, CHR 0x0A])
   \<and> \<not> contains '':'' ([CHR 0x22] @ ''hello'' @ [CHR 0x22, CHR 0x0A])
   \<and> extract_java_header
        (''public static String Header ='' @ [CHR 0x0A, CHR 0x22] @ ''hello'' @ [CHR 0x22, CHR 0x0A])
       = []"
proof -
  let ?m = "''public static String Header ='' @ [CHR 0x0A]"
  let ?l = "[CHR 0x22] @ ''hello'' @ [CHR 0x22, CHR 0x0A]"
  let ?t = "''public static String Header ='' @ [CHR 0x0A, CHR 0x22] @ ''hello'' @ [CHR 0x22, CHR 0x0A]"
  have 1: "file_lines ?t = [] @ ?m # [?l]" by (simp add: file_lines_def)
  have 2: "\<forall>l \<in> set []. \<not> contains header_marker l" by simp
  have 3: "contains header_marker ?m" by (simp add: header_marker_def startswith_def)
  have 4: "\<forall>l \<in> set [?l]. \<not> contains header_terminator l"
    by (simp add: header_terminator_def startswith_def)
  have 5: "\<forall>l \<in> set [?l]. \<not> contains '':'' l" by (simp add: startswith_def)
  from java_header_without_terminator[OF 1 2 3 4] 5 have "extract_java_header ?t = []" by blast
  with 1 3 4 5 show ?thesis by simp
qed

section \<open>The document-table extractor\<close>

lemma combine_case_distinct:
  "distinct (map fst combined) \<Longrightarrow> distinct (map fst (combine_case c combined))"
  by (induction c arbitrary: combined) (auto simp: distinct_update split: option.splits)

lemma combine_cases_distinct: "distinct (map fst (combine_cases cases))"
proof -
  have "distinct (map fst acc) \<Longrightarrow> distinct (map fst (fold combine_case cases acc))" for acc
    by (induction cases arbitrary: acc) (auto simp: combine_case_distinct)
  then show ?thesis by (simp add: combine_cases_def)
qed

lemma flatten_loop_lookup:
  "distinct (map fst combined) \<Longrightarrow>
   map_of (flatten_loop combined result) k =
     (case map_of combined k of
        None \<Rightarrow> map_of result k
      | Some c \<Rightarrow>
          (case map_of result k of
             None \<Rightarrow> Some c
           | Some m \<Rightarrow> Some (m @ [CHR 0x0A] @ c)))"
proof (induction combined arbitrary: result)
  case Nil
  then show ?case by simp
next
  case (Cons p combined)
  obtain k' v where p: "p = (k', v)" by (cases p)
  from Cons.prems p have nk: "map_of combined k' = None" and d: "distinct (map fst combined)"
    by (auto simp: map_of_eq_None_iff)
  show ?case
    using Cons.IH[OF d] nk
    by (auto simp: p update_conv' split: option.splits)
qed

text \<open>
  Claim C4, as amended.  In the flattened result of \<open>extract_word_header\<close>, a key of the
  metadata mapping that also occurs in the case tables holds the metadata value, a line feed
  and the combined case value; a key of the metadata mapping that no case table has keeps its
  metadata value; a key that only the case tables have takes the combined case value.  The
  key \<open>Word Template Issues\<close> is left out here when there are diagnostics, since the
  diagnostics are then stored under it.
\<close>

theorem word_header_collision:
  assumes "extract_word_cases tables = (metadata, cases, mismatches)"
    and "k \<noteq> ''Word Template Issues'' \<or> mismatches = []"
  shows "map_of (extract_word_header tables) k =
           (case map_of metadata k of
              None \<Rightarrow> map_of (combine_cases cases) k
            | Some m \<Rightarrow>
                (case map_of (combine_cases cases) k of
                   None \<Rightarrow> Some m
                 | Some c \<Rightarrow> Some (m @ [CHR 0x0A] @ c)))"
proof -
  have "map_of (extract_word_header tables) k
          = map_of (flatten_loop (combine_cases cases) metadata) k"
    using assms by (auto simp: extract_word_header_def word_header_def Let_def update_conv')
  then show ?thesis
    by (simp add: flatten_loop_lookup[OF combine_cases_distinct] split: option.splits)
qed

text \<open>
  Claim C4 as stated fails: with \<open>ID\<close> = \<open>1\<close> in the metadata table and \<open>ID\<close> = \<open>2\<close>
  in a case table, the flattened value of \<open>ID\<close> is \<open>1\<close>, a line feed and \<open>2\<close>, not \<open>1\<close>.
\<close>

theorem word_header_collision_counterexample:
  "fst (extract_word_cases [[[''ID'', ''1'']], [[''ID'', ''2'']]]) = [(''ID'', ''1'')]
   \<and> map_of (extract_word_header [[[''ID'', ''1'']], [[''ID'', ''2'']]]) ''ID''
       = Some (''1'' @ [CHR 0x0A] @ ''2'')
   \<and> map_of (extract_word_header [[[''ID'', ''1'']], [[''ID'', ''2'']]]) ''ID'' \<noteq> Some ''1''"
  by (simp add: extract_word_header_def extract_word_cases_def word_header_def Let_def
      combine_cases_def case_id_def set_diff_def strip_def lstrip_def rstrip_def isspace_def
      startswith_def lower_def lower_char_def)

theorem word_header_collision_witness:
  "extract_word_cases
     [[[''ID'', ''1''], [''Author'', ''ann'']], [[''ID'', ''2''], [''Step'', ''go'']]]
     = ([(''ID'', ''1''), (''Author'', ''ann'')], [[(''ID'', ''2''), (''Step'', ''go'')]], [])
   \<and> map_of (extract_word_header
        [[[''ID'', ''1''], [''Author'', ''ann'']], [[''ID'', ''2''], [''Step'', ''go'']]]) ''ID''
       = Some (''1'' @ [CHR 0x0A] @ ''2'')"
proof -
  have c: "extract_word_cases
     [[[''ID'', ''1''], [''Author'', ''ann'']], [[''ID'', ''2''], [''Step'', ''go'']]]
     = ([(''ID'', ''1''), (''Author'', ''ann'')], [[(''ID'', ''2''), (''Step'', ''go'')]], [])"
    by (simp add: extract_word_cases_def Let_def case_id_def set_diff_def strip_def lstrip_def
        rstrip_def isspace_def startswith_def lower_def lower_char_def)
  have "map_of (extract_word_header
        [[[''ID'', ''1''], [''Author'', ''ann'']], [[''ID'', ''2''], [''Step'', ''go'']]]) ''ID''
       = Some (''1'' @ [CHR 0x0A] @ ''2'')"
    using word_header_collision[OF c, of "''ID''"] by (simp add: combine_cases_def)
  with c show ?thesis by simp
qed

section \<open>The reconciliation\<close>

lemma passthrough_lookup:
  "map_of (passthrough file_data entry) k =
     (case map_of entry k of
        Some v \<Rightarrow> Some v
      | None \<Rightarrow> map_option PStr (map_of file_data k))"
proof (induction file_data arbitrary: entry)
  case Nil
  then show ?case by (simp split: option.splits)
next
  case (Cons p file_data)
  obtain k' v where p: "p = (k', v)" by (cases p)
  show ?case
    by (auto simp: p Cons.IH update_conv' split: option.splits)
qed

lemma finish_entry_lookup:
  "map_of (finish_entry (new_entry filename file_data score) error excel_remarks file_remarks
             file_data) k =
     (if k = ''Filename'' then Some (PStr filename)
      else if k = ''FileType'' then Some (PStr (dict_get file_data ''FileType'' []))
      else if k = ''Title Match %'' then Some score
      else if k = ''Error'' then Some (PStr error)
      else if k = ''Excel Remarks''
        then Some (PStr (if excel_remarks \<noteq> [] then join ''; '' excel_remarks else []))
      else if k = ''File Remarks''
        then Some (PStr (if file_remarks \<noteq> [] then join ''; '' file_remarks else []))
      else map_option PStr (map_of file_data k))"
  by (simp add: finish_entry_def new_entry_def passthrough_lookup update_conv')

lemma process_file_unmatched:
  assumes "map_of excel_map (lower (strip (dict_get file_data ''Filename'' []))) = None"
  shows "process_file excel_map file_data
           = Inr (finish_entry
                    (new_entry (strip (dict_get file_data ''Filename'' [])) file_data (PInt 0))
                    ''filename missing in excel'' [] [] file_data)"
  using assms by (simp add: process_file_def Let_def title_match_def compare_entry_def)

lemma process_file_matched:
  assumes "map_of excel_map (lower (strip (dict_get file_data ''Filename'' []))) = Some row"
  shows "\<exists>e. process_file excel_map file_data = Inl e"
  using assms
  by (auto simp: process_file_def Let_def title_match_def compare_entry_def series_bool_def
      split: option.splits cell.splits)

lemma files_loop_results:
  assumes "files_loop excel_map files results processed = Inr (results', processed')"
  shows "\<exists>entries. results' = results @ entries \<and> length entries = length files
           \<and> (\<forall>i < length files. process_file excel_map (files ! i) = Inr (entries ! i))
           \<and> set processed'
               = set processed
                 \<union> (\<lambda>file_data. lower (strip (dict_get file_data ''Filename'' []))) ` set files"
  using assms
proof (induction files arbitrary: results processed)
  case Nil
  then show ?case by simp
next
  case (Cons file_data files)
  from Cons.prems obtain entry where
    e: "process_file excel_map file_data = Inr entry"
    and r: "files_loop excel_map files (results @ [entry])
              (set_add (lower (strip (dict_get file_data ''Filename'' []))) processed)
            = Inr (results', processed')"
    by (auto split: sum.splits)
  from Cons.IH[OF r] obtain entries where
    1: "results' = (results @ [entry]) @ entries" and 2: "length entries = length files"
    and 3: "\<forall>i < length files. process_file excel_map (files ! i) = Inr (entries ! i)"
    and 4: "set processed'
               = set (set_add (lower (strip (dict_get file_data ''Filename'' []))) processed)
                 \<union> (\<lambda>file_data. lower (strip (dict_get file_data ''Filename'' []))) ` set files"
    by blast
  have "\<forall>i < length (file_data # files).
          process_file excel_map ((file_data # files) ! i) = Inr ((entry # entries) ! i)"
    using e 3 by (auto simp: nth_Cons split: nat.splits)
  moreover have "results' = results @ (entry # entries)" using 1 by simp
  moreover have "length (entry # entries) = length (file_data # files)" using 2 by simp
  moreover have "set processed'
               = set processed
                 \<union> (\<lambda>file_data. lower (strip (dict_get file_data ''Filename'' [])))
                     ` set (file_data # files)"
    using 4 by (auto simp: set_add_def)
  ultimately show ?case by blast
qed

lemma residual_loop_results:
  assumes "residual_loop df processed results = Inr results'"
  shows "results' = results
           @ map (\<lambda>c. [(''Filename'', case c of Str s \<Rightarrow> PStr s | NaN \<Rightarrow> PNaN),
                        (''Error'', PStr ''file not found'')])
               (filter (\<lambda>c. lower (strip (str_cell c)) \<notin> set processed)
                  (map (\<lambda>row. series_get row ''Filename'' NaN) df))"
  using assms
proof (induction df arbitrary: results)
  case Nil
  then show ?case by simp
next
  case (Cons row df)
  from Cons.prems obtain c where c: "map_of row ''Filename'' = Some c"
    by (auto split: option.splits)
  let ?r = "if lower (strip (str_cell c)) \<notin> set processed
             then results @ [[(''Filename'', case c of Str s \<Rightarrow> PStr s | NaN \<Rightarrow> PNaN),
                              (''Error'', PStr ''file not found'')]]
             else results"
  from Cons.prems c have "residual_loop df processed ?r = Inr results'" by simp
  from Cons.IH[OF this] c show ?case by (simp add: series_get_def)
qed

lemma reconcile_results:
  assumes "reconcile df all_files = Inr results"
  shows "\<exists>excel_map entries.
           excel_map_loop df [] = Inr excel_map
           \<and> length entries = length all_files
           \<and> (\<forall>i < length all_files. process_file excel_map (all_files ! i) = Inr (entries ! i))
           \<and> results = entries
               @ map (\<lambda>c. [(''Filename'', case c of Str s \<Rightarrow> PStr s | NaN \<Rightarrow> PNaN),
                            (''Error'', PStr ''file not found'')])
                   (filter
                      (\<lambda>c. lower (strip (str_cell c))
                            \<notin> (\<lambda>file_data. lower (strip (dict_get file_data ''Filename'' [])))
                                ` set all_files)
                      (map (\<lambda>row. series_get row ''Filename'' NaN) df))"
proof -
  from assms obtain excel_map results1 processed where
    m: "excel_map_loop df [] = Inr excel_map"
    and f: "files_loop excel_map all_files [] [] = Inr (results1, processed)"
    and r: "residual_loop df processed results1 = Inr results"
    by (auto simp: reconcile_def split: sum.splits prod.splits)
  from files_loop_results[OF f] obtain entries where
    e: "results1 = entries" "length entries = length all_files"
      "\<forall>i < length all_files. process_file excel_map (all_files ! i) = Inr (entries ! i)"
      "set processed
         = (\<lambda>file_data. lower (strip (dict_get file_data ''Filename'' []))) ` set all_files"
    by auto
  from residual_loop_results[OF r] e m show ?thesis by auto
qed

text \<open>
  Claim C2.  For an extracted record whose trimmed, lower-cased file name has no entry in the
  ledger index, the loop body yields a row whose error tag is \<open>filename missing in excel\<close>,
  whose score is the integer \<open>0\<close> and whose two remark columns are empty; no field is
  compared.  When the run hands its rows to the report, the row of that record, at the
  position of the record, is this one.
\<close>

theorem unmatched_file_row:
  assumes "excel_map_loop df [] = Inr excel_map"
    and "i < length all_files"
    and "map_of excel_map (lower (strip (dict_get (all_files ! i) ''Filename'' []))) = None"
  shows "(\<exists>entry. process_file excel_map (all_files ! i) = Inr entry
            \<and> map_of entry ''Error'' = Some (PStr ''filename missing in excel'')
            \<and> map_of entry ''Title Match %'' = Some (PInt 0)
            \<and> map_of entry ''Excel Remarks'' = Some (PStr [])
            \<and> map_of entry ''File Remarks'' = Some (PStr []))
       \<and> (\<forall>results. reconcile df all_files = Inr results \<longrightarrow>
            i < length results
            \<and> map_of (results ! i) ''Error'' = Some (PStr ''filename missing in excel'')
            \<and> map_of (results ! i) ''Title Match %'' = Some (PInt 0)
            \<and> map_of (results ! i) ''Excel Remarks'' = Some (PStr [])
            \<and> map_of (results ! i) ''File Remarks'' = Some (PStr []))"
proof (intro conjI allI impI)
  let ?e = "finish_entry
              (new_entry (strip (dict_get (all_files ! i) ''Filename'' [])) (all_files ! i) (PInt 0))
              ''filename missing in excel'' [] [] (all_files ! i)"
  have p: "process_file excel_map (all_files ! i) = Inr ?e"
    by (rule process_file_unmatched[OF assms(3)])
  have l: "map_of ?e ''Error'' = Some (PStr ''filename missing in excel'')
      \<and> map_of ?e ''Title Match %'' = Some (PInt 0)
      \<and> map_of ?e ''Excel Remarks'' = Some (PStr [])
      \<and> map_of ?e ''File Remarks'' = Some (PStr [])"
    by (simp add: finish_entry_lookup)
  from p l show "\<exists>entry. process_file excel_map (all_files ! i) = Inr entry
            \<and> map_of entry ''Error'' = Some (PStr ''filename missing in excel'')
            \<and> map_of entry ''Title Match %'' = Some (PInt 0)
            \<and> map_of entry ''Excel Remarks'' = Some (PStr [])
            \<and> map_of entry ''File Remarks'' = Some (PStr [])"
    by blast
  fix results
  assume "reconcile df all_files = Inr results"
  from reconcile_results[OF this] assms(1) obtain entries tail where
    r: "results = entries @ tail" "length entries = length all_files"
      "\<forall>i < length all_files. process_file excel_map (all_files ! i) = Inr (entries ! i)"
    by auto
  from r assms(2) p have "results ! i = ?e" by (auto simp: nth_append)
  with l r assms(2) show "i < length results"
    and "map_of (results ! i) ''Error'' = Some (PStr ''filename missing in excel'')"
    and "map_of (results ! i) ''Title Match %'' = Some (PInt 0)"
    and "map_of (results ! i) ''Excel Remarks'' = Some (PStr [])"
    and "map_of (results ! i) ''File Remarks'' = Some (PStr [])"
    by auto
qed

text \<open>
  Claim C3.  \<open>processed_files\<close> holds the normalized file names of the extracted records
  (\<open>files_loop_results\<close>); the last loop of \<open>main\<close> runs after the rows of the extracted
  records are in \<open>results\<close>.  Whatever the processed names and the rows so far are, when every
  ledger record has a file name the loop returns; it leaves the rows so far in front and
  appends exactly one row for every ledger record whose normalized file name is not a
  processed name, in the order of the ledger; such a row holds the file name of the ledger
  record and the error tag \<open>file not found\<close>, and nothing else.
\<close>

theorem residual_rows:
  assumes "\<forall>row\<in>set df. map_of row ''Filename'' \<noteq> None"
  shows "residual_loop df processed_files results
           = Inr (results
               @ map (\<lambda>c. [(''Filename'', case c of Str s \<Rightarrow> PStr s | NaN \<Rightarrow> PNaN),
                            (''Error'', PStr ''file not found'')])
                   (filter (\<lambda>c. lower (strip (str_cell c)) \<notin> set processed_files)
                      (map (\<lambda>row. series_get row ''Filename'' NaN) df)))"
  using assms
proof (induction df arbitrary: results)
  case Nil
  show ?case by simp
next
  case (Cons row df)
  from Cons.prems obtain c where c: "map_of row ''Filename'' = Some c" by auto
  from Cons.prems have "\<forall>row\<in>set df. map_of row ''Filename'' \<noteq> None" by simp
  note IH = Cons.IH[OF this]
  show ?case by (simp add: c IH series_get_def)
qed

lemmas eval_defs =
  strip_def lstrip_def rstrip_def isspace_def lower_def lower_char_def startswith_def
  endswith_def dict_get_def series_get_def str_cell_def set_add_def

theorem unmatched_file_row_witness:
  "excel_map_loop [[(''Filename'', Str ''ghost.py''), (''Excel_ID'', Str ''7'')]] []
     = Inr [(''ghost.py'', [(''Filename'', Str ''ghost.py''), (''Excel_ID'', Str ''7'')])]
   \<and> (0 :: nat) < length [[(''Filename'', ''extra.java''), (''FileType'', ''Java'')]]
   \<and> map_of [(''ghost.py'', [(''Filename'', Str ''ghost.py''), (''Excel_ID'', Str ''7'')])]
        (lower (strip (dict_get ([[(''Filename'', ''extra.java''), (''FileType'', ''Java'')]] ! 0)
           ''Filename'' []))) = None
   \<and> reconcile [[(''Filename'', Str ''ghost.py''), (''Excel_ID'', Str ''7'')]]
        [[(''Filename'', ''extra.java''), (''FileType'', ''Java'')]]
       = Inr [[(''Filename'', PStr ''extra.java''), (''FileType'', PStr ''Java''),
               (''Title Match %'', PInt 0), (''Error'', PStr ''filename missing in excel''),
               (''Excel Remarks'', PStr []), (''File Remarks'', PStr [])],
              [(''Filename'', PStr ''ghost.py''), (''Error'', PStr ''file not found'')]]
   \<and> map_of ([[(''Filename'', PStr ''extra.java''), (''FileType'', PStr ''Java''),
               (''Title Match %'', PInt 0), (''Error'', PStr ''filename missing in excel''),
               (''Excel Remarks'', PStr []), (''File Remarks'', PStr [])],
              [(''Filename'', PStr ''ghost.py''), (''Error'', PStr ''file not found'')]] ! 0)
        ''Title Match %'' = Some (PInt 0)"
proof -
  let ?df = "[[(''Filename'', Str ''ghost.py''), (''Excel_ID'', Str ''7'')]]"
  let ?fs = "[[(''Filename'', ''extra.java''), (''FileType'', ''Java'')]]"
  let ?m = "[(''ghost.py'', [(''Filename'', Str ''ghost.py''), (''Excel_ID'', Str ''7'')])]"
  have 1: "excel_map_loop ?df [] = Inr ?m" by (simp add: eval_defs)
  have 2: "(0 :: nat) < length ?fs" by simp
  have 3: "map_of ?m (lower (strip (dict_get (?fs ! 0) ''Filename'' []))) = None"
    by (simp add: eval_defs)
  have 4: "reconcile ?df ?fs
       = Inr [[(''Filename'', PStr ''extra.java''), (''FileType'', PStr ''Java''),
               (''Title Match %'', PInt 0), (''Error'', PStr ''filename missing in excel''),
               (''Excel Remarks'', PStr []), (''File Remarks'', PStr [])],
              [(''Filename'', PStr ''ghost.py''), (''Error'', PStr ''file not found'')]]"
    by (simp add: reconcile_def process_file_def title_match_def compare_entry_def
        finish_entry_def new_entry_def Let_def eval_defs)
  from unmatched_file_row[OF 1 2 3] 4
  have "map_of ([[(''Filename'', PStr ''extra.java''), (''FileType'', PStr ''Java''),
               (''Title Match %'', PInt 0), (''Error'', PStr ''filename missing in excel''),
               (''Excel Remarks'', PStr []), (''File Remarks'', PStr [])],
              [(''Filename'', PStr ''ghost.py''), (''Error'', PStr ''file not found'')]] ! 0)
        ''Title Match %'' = Some (PInt 0)"
    by blast
  with 1 2 3 4 show ?thesis by blast
qed

theorem residual_rows_witness:
  "residual_loop
        [[(''Filename'', Str ''a.py''), (''Excel_ID'', Str ''7'')],
         [(''Filename'', Str ''ghost.py''), (''Excel_ID'', Str ''8'')],
         [(''Filename'', Str ''b.java''), (''Excel_ID'', Str ''9'')],
         [(''Filename'', Str ''lost.docx''), (''Excel_ID'', Str ''10'')]]
        [''a.py'', ''b.java'']
        [[(''Filename'', PStr ''A.py''), (''Error'', PStr [])],
         [(''Filename'', PStr ''b.java''), (''Error'', PStr ''mismatch error'')]]
       = Inr [[(''Filename'', PStr ''A.py''), (''Error'', PStr [])],
              [(''Filename'', PStr ''b.java''), (''Error'', PStr ''mismatch error'')],
              [(''Filename'', PStr ''ghost.py''), (''Error'', PStr ''file not found'')],
              [(''Filename'', PStr ''lost.docx''), (''Error'', PStr ''file not found'')]]"
proof -
  let ?df = "[[(''Filename'', Str ''a.py''), (''Excel_ID'', Str ''7'')],
         [(''Filename'', Str ''ghost.py''), (''Excel_ID'', Str ''8'')],
         [(''Filename'', Str ''b.java''), (''Excel_ID'', Str ''9'')],
         [(''Filename'', Str ''lost.docx''), (''Excel_ID'', Str ''10'')]]"
  let ?rs = "[[(''Filename'', PStr ''A.py''), (''Error'', PStr [])],
         [(''Filename'', PStr ''b.java''), (''Error'', PStr ''mismatch error'')]]"
  have h: "\<forall>row\<in>set ?df. map_of row ''Filename'' \<noteq> None" by simp
  from residual_rows[OF h, of "[''a.py'', ''b.java'']" ?rs]
  have "residual_loop ?df [''a.py'', ''b.java''] ?rs
      = Inr (?rs @ [[(''Filename'', PStr ''ghost.py''), (''Error'', PStr ''file not found'')],
              [(''Filename'', PStr ''lost.docx''), (''Error'', PStr ''file not found'')]])"
    by (simp add: eval_defs del: residual_loop.simps)
  then show ?thesis by simp
qed

text \<open>
  Claim C1, evaluated on the example of the specification: the ledger lists \<open>report.py\<close>
  with \<open>ID\<close> = \<open>7\<close>, the folder holds \<open>report.py\<close> with the header \<open># ID: 8\<close>.  The
  statement \<open>if excel_row:\<close> asks for the truth value of a \<open>pandas\<close> \<open>Series\<close>, which
  raises \<open>ValueError\<close>: no field is compared and no row is made.
\<close>

theorem matched_record_raises:
  "main [[(''Filename'', Str ''report.py''), (''Excel_ID'', Str ''7'')]]
     [(''report.py'', ''# ID: 8'')] [] []
   = Inl ValueError"
  by (simp add: main_def merge_excel_rows_def merged_rows_def data_frame_def group_add_def
      row_filename_def strip_filename_column_def collect_files_def extract_comment_header_def
      file_lines_def lstrip_chars_def split_once_def reconcile_def process_file_def
      title_match_def compare_entry_def series_bool_def Let_def eval_defs)

text \<open>
  Claim C10, evaluated.  A \<open>title\<close> field of a Java header is stored under \<open>Filename\<close> and
  then overwritten by the name of the file; a \<open>title\<close> field of a Word document is not
  translated (\<open>WORD_KEY_MAP\<close> is never applied): it stays under \<open>title\<close> in the record and
  is copied into the report row.
\<close>

theorem word_title_not_aliased:
  "collect_files []
     [(''A.java'',
       ''public static String Header ='' @ [CHR 0x0A, CHR 0x22] @ ''Title: Report''
         @ [CHR 0x22, CHR 0x0A, CHR 0x22] @ '';'' @ [CHR 0x0A])]
     [(''d.docx'', [[[''title'', ''Report'']], []])]
   = Inr [[(''Filename'', ''A.java''), (''FileType'', ''Java'')],
          [(''title'', ''Report''), (''Filename'', ''d.docx''), (''FileType'', ''Word'')]]
   \<and> main [[(''Filename'', Str ''ghost.py'')]] [] []
        [(''d.docx'', [[[''title'', ''Report'']], []])]
     = Inr [[(''Filename'', PStr ''d.docx''), (''FileType'', PStr ''Word''),
             (''Title Match %'', PInt 0), (''Error'', PStr ''filename missing in excel''),
             (''Excel Remarks'', PStr []), (''File Remarks'', PStr []),
             (''title'', PStr ''Report'')],
            [(''Filename'', PStr ''ghost.py''), (''Error'', PStr ''file not found'')]]"
proof -
  have t: "char_of (116 :: nat) = CHR ''t''" by code_simp
  show ?thesis
  by (simp add: t main_def merge_excel_rows_def merged_rows_def data_frame_def group_add_def
      row_filename_def strip_filename_column_def collect_files_def extract_java_header_def
      header_marker_def header_terminator_def clean_header_def escaped_newline_def split_def
      JAVA_KEY_MAP_def extract_word_header_def extract_word_cases_def word_header_def
      combine_cases_def case_id_def set_diff_def
      file_lines_def split_once_def reconcile_def process_file_def
      title_match_def compare_entry_def finish_entry_def new_entry_def Let_def eval_defs)
qed

section \<open>Properties of the matching blocks\<close>

text \<open>
  The blocks found inside a range are disjoint sub-ranges of it, so the sizes of all blocks
  add up to at most the length of either string.  Sorting and merging adjacent blocks keep
  the sum.
\<close>

lemma sizes_simps [simp]:
  "sizes [] = 0" "sizes ((i, j, k) # ms) = k + sizes ms" "sizes (xs @ ys) = sizes xs + sizes ys"
  by (simp_all add: sizes_def)

lemma blocks_loop_sizes:
  "sizes (blocks_loop a b queue mb) \<le> sizes mb + (\<Sum>(alo, ahi, blo, bhi)\<leftarrow>queue. ahi - alo) \<and>
   sizes (blocks_loop a b queue mb) \<le> sizes mb + (\<Sum>(alo, ahi, blo, bhi)\<leftarrow>queue. bhi - blo)"
proof (induction a b queue mb rule: blocks_loop.induct)
  case (1 a b mb)
  show ?case by simp
next
  case (2 a b alo ahi blo bhi queue mb)
  obtain i j k where f: "find_longest_match a b alo ahi blo bhi = (i, j, k)"
    by (metis prod_cases3)
  have ok: "best_ok alo ahi blo bhi (i, j, k)"
    using find_longest_match_bounds[of alo ahi blo bhi a b] f by simp
  show ?case
  proof (cases "k = 0")
    case True
    with "2.IH"(2)[OF f[symmetric] refl] f show ?thesis by simp
  next
    case False
    from "2.IH"(1)[OF f[symmetric] refl False] f False ok show ?thesis
      by (auto simp: best_ok_def split: if_splits)
  qed
qed

lemma collapse_sizes:
  "sizes (collapse rest (i1, j1, k1) acc) = sizes acc + k1 + sizes rest"
  by (induction rest arbitrary: i1 j1 k1 acc) auto

lemma sort_sizes: "sizes (sort ms) = sizes ms"
proof -
  have "sizes xs = sum_mset (image_mset (\<lambda>(i, j, k). k) (mset xs))" for xs
    unfolding sizes_def by (metis mset_map sum_mset_sum_list)
  then show ?thesis by simp
qed

lemma matches_blocks_loop:
  "matches a b = sizes (blocks_loop a b [(0, length a, 0, length b)] [])"
  by (simp add: matches_def get_matching_blocks_def sizes_def[symmetric] collapse_sizes sort_sizes)

lemma matches_le: "matches a b \<le> length a \<and> matches a b \<le> length b"
  using blocks_loop_sizes[of a b "[(0, length a, 0, length b)]" "[]"]
  by (simp add: matches_blocks_loop)

section \<open>Properties of the floats\<close>





lemma round_half_even_of_int [simp]: "round_half_even (of_int n) = n"
  by (simp add: round_half_even_def)



lemma to_double_0 [simp]: "to_double 0 = 0"
  by (simp add: to_double_def)














lemma to_double_100: "to_double 100 = 100"
  by code_simp

section \<open>The score\<close>

lemma lower_Nil_iff [simp]: "lower a = [] \<longleftrightarrow> a = []"
  by (simp add: lower_def)

lemma round_half_even_0 [simp]: "round_half_even 0 = 0"
  using round_half_even_of_int[of 0] by simp

lemma py_round2_0: "py_round2 0 = 0"
  by (simp add: py_round2_def)

lemma py_round2_100: "py_round2 100 = 100"
  using round_half_even_of_int[of 10000] by (simp add: py_round2_def to_double_100)







text \<open>
  When no character matches, the score is \<open>0\<close>, unless both strings are empty: then
  \<open>ratio\<close> is \<open>1.0\<close> and the score is \<open>100\<close>.
\<close>

lemma similar_no_match:
  assumes "matches (lower a) (lower b) = 0"
  shows "similar a b = (if a = [] \<and> b = [] then 100 else 0)"
  using assms
  by (simp add: similar_def ratio_def fdiv_def fmul_def float_of_nat_def to_double_100
      py_round2_0 py_round2_100)

text \<open>
  Claim C8, as amended.  \<open>similar\<close> is a total function: an empty string is accepted like
  any other.  When exactly one of the two strings is empty the score is \<open>0\<close>; when both
  are empty the score is \<open>100\<close>, the maximal one.
\<close>

theorem similar_empty:
  "similar [] [] = 100 \<and> (a \<noteq> [] \<longrightarrow> similar a [] = 0 \<and> similar [] a = 0)"
proof -
  have "matches (lower a) (lower []) = 0" using matches_le[of "lower a" "lower []"]
    by (simp add: lower_def)
  from similar_no_match[OF this] have 1: "similar a [] = (if a = [] then 100 else 0)" by simp
  have "matches (lower []) (lower a) = 0" using matches_le[of "lower []" "lower a"]
    by (simp add: lower_def)
  from similar_no_match[OF this] have 2: "similar [] a = (if a = [] then 100 else 0)" by simp
  have "matches (lower []) (lower []) = 0" using matches_le[of "lower []" "lower []"]
    by (simp add: lower_def)
  from similar_no_match[OF this] have 3: "similar [] [] = 100" by simp
  from 1 2 3 show ?thesis by simp
qed

text \<open>
  Claim C8 as stated asks for a score other than \<open>100\<close> for two empty strings; the code
  returns \<open>100\<close>.
\<close>

theorem similar_empty_counterexample: "similar [] [] = 100"
  by code_simp

theorem similar_empty_witness:
  "''x'' \<noteq> [] \<and> similar ''x'' [] = 0 \<and> similar [] ''x'' = 0"
  using similar_empty[of "''x''"] by simp

section \<open>A string matched against itself\<close>





lemma b2j_popular: "popular s c \<Longrightarrow> b2j s c = []"
  by (simp add: b2j_def)











section \<open>The ledger normalizer\<close>

text \<open>
  The values that the first loop of \<open>merge_excel_rows\<close> collects for a file name and a
  column are, as a set, the trimmed values of that column in the rows of that file name: the
  order of the rows plays no part.
\<close>

lemma list_all_update:
  "list_all P al \<Longrightarrow> P (k, v) \<Longrightarrow> list_all P (AList.update k v al)"
  by (induction al) auto

lemma grouped_ok_data:
  assumes "grouped_ok g" "map_of g f = Some d"
  shows "distinct (map fst d) \<and> d \<noteq> [] \<and> list_all (\<lambda>(c, vs). vs \<noteq> []) d"
proof -
  from assms(2) have "(f, d) \<in> set g" by (rule map_of_SomeD)
  with assms(1) show ?thesis by (auto simp: grouped_ok_def list_all_iff)
qed

lemma group_add_ok:
  assumes "grouped_ok g"
  shows "grouped_ok (group_add f c v g)"
proof -
  let ?data = "case map_of g f of Some d \<Rightarrow> d | None \<Rightarrow> []"
  let ?vals = "case map_of ?data c of Some vs \<Rightarrow> vs | None \<Rightarrow> []"
  have d: "distinct (map fst ?data) \<and> list_all (\<lambda>(c, vs). vs \<noteq> []) ?data"
    using grouped_ok_data[OF assms] by (auto split: option.splits)
  have "distinct (map fst (AList.update c (?vals @ [v]) ?data))
      \<and> AList.update c (?vals @ [v]) ?data \<noteq> []
      \<and> list_all (\<lambda>(c, vs). vs \<noteq> []) (AList.update c (?vals @ [v]) ?data)"
    using d by (simp add: distinct_update list_all_update)
  then show ?thesis using assms
    by (simp add: grouped_ok_def group_add_def Let_def distinct_update list_all_update)
qed

lemma collected_group_add:
  "collected (group_add f c v g) f' c'
     = collected g f' c' \<union> (if f' = f \<and> c' = c then {v} else {})"
  by (auto simp: collected_def group_add_def Let_def update_conv' split: option.splits)

lemma row_cells_ok: "grouped_ok g \<Longrightarrow> grouped_ok (row_cells f row g)"
  by (induction row arbitrary: g) (auto simp: group_add_ok split: cell.splits)

lemma collected_row_cells:
  "collected (row_cells f row g) f' c'
     = collected g f' c' \<union> (if f' = f then {strip s | s. (c', Str s) \<in> set row} else {})"
proof (induction row arbitrary: g)
  case Nil
  show ?case by simp
next
  case (Cons p row)
  obtain col val where p: "p = (col, val)" by (cases p)
  show ?case by (cases val) (auto simp: p Cons.IH collected_group_add)
qed

lemma group_rows_ok: "grouped_ok g \<Longrightarrow> grouped_ok (group_rows rows g)"
  by (induction rows arbitrary: g) (auto simp: row_cells_ok)

lemma collected_group_rows:
  "collected (group_rows rows g) f c
     = collected g f c
       \<union> {strip s | row s. row \<in> set rows \<and> row_filename row = f \<and> (c, Str s) \<in> set row}"
proof (induction rows arbitrary: g)
  case Nil
  show ?case by simp
next
  case (Cons row rows)
  show ?case by (auto simp: Cons.IH collected_row_cells)
qed

text \<open>
  The merged row of a file name is a function of these sets, and so is the frame, up to the
  order of its rows and of its columns.
\<close>

lemma merged_row_loop_lookup:
  "distinct (map fst d) \<Longrightarrow>
   map_of (merged_row_loop d m) c
     = (case map_of d c of
          Some vs \<Rightarrow> Some (join [CHR 0x0A] (sort (remdups vs)))
        | None \<Rightarrow> map_of m c)"
proof (induction d arbitrary: m)
  case Nil
  show ?case by simp
next
  case (Cons p d)
  obtain col vals where p: "p = (col, vals)" by (cases p)
  from Cons.prems have n: "map_of d col = None" by (auto simp: p map_of_eq_None_iff)
  from Cons.prems have "distinct (map fst d)" by simp
  note IH = Cons.IH[OF this]
  show ?case using n by (auto simp: p IH update_conv' split: option.splits)
qed

lemma merged_rows_by_name:
  "map_of (zip (map fst g) (map map_of (merged_rows g))) f
     = map_option (\<lambda>d. map_of (merged_row_loop d [(''Filename'', f)])) (map_of g f)"
  by (induction g) (auto simp: merged_rows_def)

lemma by_name_collected:
  assumes "grouped_ok g"
  shows "map_of (zip (map fst g) (map map_of (merged_rows g))) f
     = (if \<exists>c. collected g f c \<noteq> {}
        then Some (\<lambda>c. if collected g f c \<noteq> {}
                        then Some (join [CHR 0x0A] (sorted_list_of_set (collected g f c)))
                        else if c = ''Filename'' then Some f else None)
        else None)"
proof (cases "map_of g f")
  case None
  then show ?thesis by (simp add: merged_rows_by_name collected_def)
next
  case (Some d)
  from grouped_ok_data[OF assms Some] have d: "distinct (map fst d)" "d \<noteq> []"
    "list_all (\<lambda>(c, vs). vs \<noteq> []) d" by auto
  have ne: "vs \<noteq> []" if "map_of d c = Some vs" for c vs
    using map_of_SomeD[OF that] d(3) by (auto simp: list_all_iff)
  have col: "collected g f c = (case map_of d c of None \<Rightarrow> {} | Some vs \<Rightarrow> set vs)" for c
    by (simp add: collected_def Some)
  obtain c0 vs0 rest where "d = (c0, vs0) # rest" using d(2) by (cases d) auto
  then have "map_of d c0 = Some vs0" by simp
  with ne[OF this] have ex: "\<exists>c. collected g f c \<noteq> {}" by (auto simp: col intro!: exI[of _ c0])
  have "map_of (merged_row_loop d [(''Filename'', f)]) c
      = (if collected g f c \<noteq> {}
         then Some (join [CHR 0x0A] (sorted_list_of_set (collected g f c)))
         else if c = ''Filename'' then Some f else None)" for c
    using ne[of c]
    by (auto simp: merged_row_loop_lookup[OF d(1)] col sorted_list_of_set_sort_remdups
        split: option.splits)
  then have "map_of (merged_row_loop d [(''Filename'', f)])
      = (\<lambda>c. if collected g f c \<noteq> {}
         then Some (join [CHR 0x0A] (sorted_list_of_set (collected g f c)))
         else if c = ''Filename'' then Some f else None)" by (rule ext)
  with ex show ?thesis by (simp add: merged_rows_by_name Some)
qed

lemma grouped_ok_Nil: "grouped_ok []"
  by (simp add: grouped_ok_def)

lemma merged_by_name_set:
  assumes "set rows' = set rows"
  shows "map_of (zip (map fst (group_rows rows' [])) (map map_of (merged_rows (group_rows rows' []))))
       = map_of (zip (map fst (group_rows rows [])) (map map_of (merged_rows (group_rows rows []))))"
proof (rule ext)
  fix f
  have e: "collected (group_rows rows' []) f = collected (group_rows rows []) f"
    by (rule ext) (simp add: collected_group_rows assms)
  show "map_of (zip (map fst (group_rows rows' [])) (map map_of (merged_rows (group_rows rows' [])))) f
       = map_of (zip (map fst (group_rows rows [])) (map map_of (merged_rows (group_rows rows [])))) f"
    unfolding by_name_collected[OF group_rows_ok[OF grouped_ok_Nil]] e by (rule refl)
qed

lemma set_first_seen: "set (first_seen xs seen) = set xs \<union> set seen"
  by (induction xs arbitrary: seen) auto

lemma distinct_first_seen: "distinct seen \<Longrightarrow> distinct (first_seen xs seen)"
  by (induction xs arbitrary: seen) auto

lemma data_frame_maps:
  "map map_of (data_frame ms) = map (fill (\<Union> (dom ` set (map map_of ms)))) (map map_of ms)"
proof -
  have c: "set (first_seen (concat (map (map fst) ms)) []) = \<Union> (dom ` set (map map_of ms))"
    by (auto simp: set_first_seen dom_map_of_conv_image_fst)
  have "map_of (map (\<lambda>c. (c, case map_of m c of Some v \<Rightarrow> Str v | None \<Rightarrow> NaN)) cols)
      = fill (set cols) (map_of m)" for m cols
    by (rule ext) (simp add: fill_def map_of_map_restrict restrict_map_def)
  then show ?thesis by (simp add: data_frame_def Let_def c)
qed

lemma merged_rows_mset:
  assumes "grouped_ok g" "grouped_ok g'"
    and "map_of (zip (map fst g') (map map_of (merged_rows g')))
       = map_of (zip (map fst g) (map map_of (merged_rows g)))"
  shows "mset (map map_of (merged_rows g')) = mset (map map_of (merged_rows g))"
proof -
  let ?p = "\<lambda>g. zip (map fst g) (map map_of (merged_rows g))"
  have l: "length (map fst g) = length (map map_of (merged_rows g))" for g
    by (simp add: merged_rows_def)
  have k: "map fst (?p g) = map fst g" and s: "map snd (?p g) = map map_of (merged_rows g)" for g
    using l[of g] by simp_all
  have d: "distinct (map fst (?p g))" "distinct (map fst (?p g'))"
    using assms(1,2) by (simp_all only: k) (simp_all add: grouped_ok_def)
  then have d2: "distinct (?p g)" "distinct (?p g')" by (auto simp: distinct_map)
  from map_of_inject_set[OF d(2) d(1)] assms(3) have "set (?p g') = set (?p g)" by simp
  with d2 have "mset (?p g') = mset (?p g)" by (simp add: set_eq_iff_mset_eq_distinct)
  then have "mset (map snd (?p g')) = mset (map snd (?p g))" by (metis mset_map)
  then show ?thesis by (simp only: s)
qed

lemma merge_excel_rows_set:
  assumes "set rows' = set rows"
  shows "mset (map map_of (merge_excel_rows rows')) = mset (map map_of (merge_excel_rows rows))"
proof -
  let ?ms = "merged_rows (group_rows rows [])" and ?ms' = "merged_rows (group_rows rows' [])"
  have m: "mset (map map_of ?ms') = mset (map map_of ?ms)"
    by (rule merged_rows_mset[OF group_rows_ok[OF grouped_ok_Nil] group_rows_ok[OF grouped_ok_Nil]
          merged_by_name_set[OF assms]])
  then have "set (map map_of ?ms') = set (map map_of ?ms)" by (rule mset_eq_setD)
  then have f: "fill (\<Union> (dom ` set (map map_of ?ms'))) = fill (\<Union> (dom ` set (map map_of ?ms)))"
    by (simp only:)
  have a: "mset (map map_of (merge_excel_rows r))
      = image_mset (fill (\<Union> (dom ` set (map map_of (merged_rows (group_rows r []))))))
          (mset (map map_of (merged_rows (group_rows r []))))" for r
    unfolding merge_excel_rows_def data_frame_maps by (rule mset_map)
  show ?thesis by (simp only: a m f)
qed

text \<open>
  A frame in which every row has a file name, and no two rows the same normalized file name:
  every row makes a group of its own, and its merged row holds the trimmed values of the row.
\<close>

lemma update_fresh: "k \<notin> fst ` set al \<Longrightarrow> AList.update k v al = al @ [(k, v)]"
  by (induction al) auto

lemma update_append_last:
  "k \<notin> fst ` set xs \<Longrightarrow> AList.update k v (xs @ [(k, w)]) = xs @ [(k, v)]"
  by (induction xs) auto

lemma map_of_append_last: "k \<notin> fst ` set xs \<Longrightarrow> map_of (xs @ [(k, w)]) k = Some w"
  by (induction xs) auto

lemma fst_cells_of: "fst ` set (cells_of row) \<subseteq> fst ` set row"
  by (induction row rule: cells_of.induct) auto

lemma row_cells_open:
  assumes "f \<notin> fst ` set g"
  shows "distinct (map fst row) \<Longrightarrow> fst ` set row \<inter> fst ` set d = {} \<Longrightarrow>
    row_cells f row (g @ [(f, d)]) = g @ [(f, d @ cells_of row)]"
proof (induction row arbitrary: d rule: cells_of.induct)
  case 1
  show ?case by simp
next
  case (2 c row)
  then show ?case by simp
next
  case (3 c s row)
  from 3(3) have c: "c \<notin> fst ` set d" by auto
  then have n: "map_of d c = None" by (simp add: map_of_eq_None_iff)
  have "group_add f c (strip s) (g @ [(f, d)]) = g @ [(f, d @ [(c, [strip s])])]"
    using assms c
    by (simp add: group_add_def Let_def map_of_append_last n update_append_last update_fresh
        del: map_of_append)
  moreover have "row_cells f row (g @ [(f, d @ [(c, [strip s])])])
      = g @ [(f, (d @ [(c, [strip s])]) @ cells_of row)]"
    using 3(2,3) by (intro 3(1)) auto
  ultimately show ?case by simp
qed

lemma row_cells_fresh:
  assumes "f \<notin> fst ` set g"
  shows "distinct (map fst row) \<Longrightarrow> cells_of row \<noteq> [] \<Longrightarrow>
    row_cells f row g = g @ [(f, cells_of row)]"
proof (induction row rule: cells_of.induct)
  case 1
  then show ?case by simp
next
  case (2 c row)
  then show ?case by simp
next
  case (3 c s row)
  have n: "map_of g f = None" using assms by (simp add: map_of_eq_None_iff)
  have "group_add f c (strip s) g = g @ [(f, [(c, [strip s])])]"
    using assms by (simp add: group_add_def Let_def n update_fresh)
  moreover have "row_cells f row (g @ [(f, [(c, [strip s])])])
      = g @ [(f, [(c, [strip s])] @ cells_of row)]"
    using 3(2) by (intro row_cells_open[OF assms]) auto
  ultimately show ?case by simp
qed

lemma group_rows_fresh:
  assumes "\<forall>row\<in>set rows. distinct (map fst row) \<and> cells_of row \<noteq> []"
  shows "distinct (map row_filename rows) \<Longrightarrow> row_filename ` set rows \<inter> fst ` set g = {} \<Longrightarrow>
    group_rows rows g = g @ map (\<lambda>row. (row_filename row, cells_of row)) rows"
  using assms
proof (induction rows arbitrary: g)
  case Nil
  show ?case by simp
next
  case (Cons row rows)
  from Cons.prems have f: "row_filename row \<notin> fst ` set g" by auto
  from Cons.prems have r: "distinct (map fst row)" "cells_of row \<noteq> []" by auto
  have 1: "row_cells (row_filename row) row g = g @ [(row_filename row, cells_of row)]"
    by (rule row_cells_fresh[OF f r])
  have 2: "group_rows rows (g @ [(row_filename row, cells_of row)])
      = (g @ [(row_filename row, cells_of row)])
        @ map (\<lambda>row. (row_filename row, cells_of row)) rows"
    using Cons.prems by (intro Cons.IH) auto
  show ?case by (simp add: 1 2)
qed

lemma map_of_cells_of:
  "distinct (map fst row) \<Longrightarrow>
   map_of (cells_of row) c
     = (case map_of row c of Some (Str s) \<Rightarrow> Some [strip s] | _ \<Rightarrow> None)"
proof (induction row rule: cells_of.induct)
  case 1
  show ?case by simp
next
  case (2 c' row)
  then have "c' \<notin> fst ` set (cells_of row)" using fst_cells_of[of row] by auto
  then have "map_of (cells_of row) c' = None" by (simp add: map_of_eq_None_iff)
  with 2 show ?case by auto
next
  case (3 c' s row)
  then show ?case by auto
qed

lemma distinct_cells_of: "distinct (map fst row) \<Longrightarrow> distinct (map fst (cells_of row))"
proof (induction row rule: cells_of.induct)
  case (3 c s row)
  then show ?case using fst_cells_of[of row] by auto
qed simp_all

lemma merged_row_of_cells:
  assumes "distinct (map fst row)" "map_of row ''Filename'' = Some (Str s)"
  shows "map_of (merged_row_loop (cells_of row) [(''Filename'', f)]) = stripped row"
proof (rule ext)
  fix c
  show "map_of (merged_row_loop (cells_of row) [(''Filename'', f)]) c = stripped row c"
    using assms(2)
    by (auto simp: merged_row_loop_lookup[OF distinct_cells_of[OF assms(1)]]
        map_of_cells_of[OF assms(1)] stripped_def split: option.splits cell.splits)
qed

lemma merge_excel_rows_fixed:
  assumes k: "distinct (map row_filename df)"
    and shape: "\<forall>row\<in>set df. distinct (map fst row)
        \<and> (\<exists>s. map_of row ''Filename'' = Some (Str s))
        \<and> fst ` set row = {c. \<exists>r\<in>set df. \<exists>s. map_of r c = Some (Str s)}"
    and trimmed: "\<forall>row\<in>set df. \<forall>c s. (c, Str s) \<in> set row \<longrightarrow> strip s = s"
  shows "map map_of (merge_excel_rows df) = map map_of df"
proof -
  let ?C = "{c. \<exists>r\<in>set df. \<exists>s. map_of r c = Some (Str s)}"
  have ne: "\<forall>row\<in>set df. distinct (map fst row) \<and> cells_of row \<noteq> []"
  proof
    fix row
    assume r: "row \<in> set df"
    with shape obtain s where d: "distinct (map fst row)"
      and f: "map_of row ''Filename'' = Some (Str s)" by blast
    from map_of_cells_of[OF d, of "''Filename''"] f
    have "map_of (cells_of row) ''Filename'' = Some [strip s]" by simp
    then have "cells_of row \<noteq> []" by auto
    with d show "distinct (map fst row) \<and> cells_of row \<noteq> []" by simp
  qed
  have g: "group_rows df [] = map (\<lambda>row. (row_filename row, cells_of row)) df"
    using group_rows_fresh[OF ne k, of "[]"] by simp
  have ms: "map map_of (merged_rows (group_rows df [])) = map stripped df"
    using shape by (auto simp: g merged_rows_def merged_row_of_cells)
  have C: "\<Union> (dom ` set (map stripped df)) = ?C"
    by (auto simp: stripped_def dom_def split: option.splits cell.splits) (metis cell.exhaust)
  have fx: "fill ?C (stripped row) = map_of row" if r: "row \<in> set df" for row
  proof (rule ext)
    fix c
    from shape r have d: "distinct (map fst row)" and cs: "fst ` set row = ?C" by auto
    show "fill ?C (stripped row) c = map_of row c"
    proof (cases "map_of row c")
      case None
      then have "c \<notin> ?C" using cs by (simp add: map_of_eq_None_iff)
      then show ?thesis using None by (simp add: fill_def)
    next
      case (Some v)
      then have m: "(c, v) \<in> set row" by (rule map_of_SomeD)
      then have "c \<in> fst ` set row" by force
      then have c: "c \<in> ?C" using cs by simp
      show ?thesis
      proof (cases v)
        case NaN
        then show ?thesis using c Some by (simp add: fill_def stripped_def)
      next
        case (Str s)
        with trimmed r m have "strip s = s" by blast
        then show ?thesis using c Some Str by (simp add: fill_def stripped_def)
      qed
    qed
  qed
  have "map (fill ?C) (map stripped df) = map map_of df"
    using fx by (simp add: comp_def)
  then show ?thesis by (simp only: merge_excel_rows_def data_frame_maps ms C)
qed

lemma merged_rows_Filename:
  assumes "grouped_ok g" "m \<in> set (merged_rows g)"
  shows "\<exists>v. map_of m ''Filename'' = Some v"
proof -
  from assms(2) obtain f d where fd: "(f, d) \<in> set g"
    and m: "m = merged_row_loop d [(''Filename'', f)]"
    by (auto simp: merged_rows_def)
  from assms(1) fd have "distinct (map fst d)" by (auto simp: grouped_ok_def list_all_iff)
  from merged_row_loop_lookup[OF this, of "[(''Filename'', f)]" "''Filename''"]
  show ?thesis by (auto simp: m split: option.splits)
qed

lemma merge_excel_rows_shape:
  "\<forall>row\<in>set (merge_excel_rows rows). distinct (map fst row)
     \<and> (\<exists>s. map_of row ''Filename'' = Some (Str s))
     \<and> fst ` set row
         = {c. \<exists>r\<in>set (merge_excel_rows rows). \<exists>s. map_of r c = Some (Str s)}"
proof
  let ?ms = "merged_rows (group_rows rows [])"
  let ?cols = "first_seen (concat (map (map fst) ?ms)) []"
  let ?F = "\<lambda>m. map (\<lambda>c. (c, case map_of m c of Some v \<Rightarrow> Str v | None \<Rightarrow> NaN)) ?cols"
  have out: "merge_excel_rows rows = map ?F ?ms"
    by (simp add: merge_excel_rows_def data_frame_def Let_def)
  have ok: "grouped_ok (group_rows rows [])" by (rule group_rows_ok[OF grouped_ok_Nil])
  have cols: "set ?cols = (\<Union>m\<in>set ?ms. fst ` set m)" by (auto simp: set_first_seen)
  have look: "map_of (?F m) c
      = (if c \<in> set ?cols then Some (case map_of m c of Some v \<Rightarrow> Str v | None \<Rightarrow> NaN)
         else None)" for m c
    by (simp add: map_of_map_restrict restrict_map_def)
  fix row
  assume "row \<in> set (merge_excel_rows rows)"
  then obtain m where m: "m \<in> set ?ms" and row: "row = ?F m" by (auto simp: out)
  have 1: "distinct (map fst row)" by (simp add: row comp_def distinct_first_seen)
  from merged_rows_Filename[OF ok m] obtain v where v: "map_of m ''Filename'' = Some v" ..
  then have "''Filename'' \<in> fst ` set m" by (metis map_of_eq_None_iff option.distinct(1))
  with m have "''Filename'' \<in> set ?cols" unfolding cols by blast
  then have 2: "\<exists>s. map_of row ''Filename'' = Some (Str s)" unfolding row look by (simp add: v)
  have 3: "fst ` set row = {c. \<exists>r\<in>set (merge_excel_rows rows). \<exists>s. map_of r c = Some (Str s)}"
  proof (intro set_eqI iffI)
    fix c
    assume "c \<in> fst ` set row"
    then have "c \<in> set ?cols" by (auto simp: row)
    then obtain m' where m': "m' \<in> set ?ms" "c \<in> fst ` set m'" unfolding cols by blast
    then obtain w where "map_of m' c = Some w" by (metis map_of_eq_None_iff not_Some_eq)
    with \<open>c \<in> set ?cols\<close> have "map_of (?F m') c = Some (Str w)" unfolding look by simp
    moreover have "?F m' \<in> set (merge_excel_rows rows)"
      unfolding out set_map using m'(1) by (rule imageI)
    ultimately show "c \<in> {c. \<exists>r\<in>set (merge_excel_rows rows). \<exists>s. map_of r c = Some (Str s)}"
      by blast
  next
    fix c
    assume "c \<in> {c. \<exists>r\<in>set (merge_excel_rows rows). \<exists>s. map_of r c = Some (Str s)}"
    then obtain m' s where "map_of (?F m') c = Some (Str s)" by (auto simp: out)
    then have "c \<in> set ?cols" unfolding look by (simp split: if_splits)
    then show "c \<in> fst ` set row" by (force simp: row)
  qed
  from 1 2 3 show "distinct (map fst row)
     \<and> (\<exists>s. map_of row ''Filename'' = Some (Str s))
     \<and> fst ` set row
         = {c. \<exists>r\<in>set (merge_excel_rows rows). \<exists>s. map_of r c = Some (Str s)}"
    by blast
qed

text \<open>
  Claim C6, as amended.  When the rows of the raw ledger are permuted, the merged row of
  every normalized file name is the same mapping from columns to values, and the normalized
  ledger holds the same rows, each the same mapping from columns to cells.  When every value
  of the normalized ledger is trimmed and no two of its rows have the same normalized file
  name, normalizing it again gives the same rows in the same order, each the same mapping from
  columns to cells.
\<close>

theorem merge_excel_rows_laws:
  "(mset rows' = mset rows \<longrightarrow>
      map_of (zip (map fst (group_rows rows' [])) (map map_of (merged_rows (group_rows rows' []))))
        = map_of (zip (map fst (group_rows rows [])) (map map_of (merged_rows (group_rows rows []))))
      \<and> mset (map map_of (merge_excel_rows rows')) = mset (map map_of (merge_excel_rows rows)))
   \<and> (distinct (map row_filename (merge_excel_rows rows))
        \<and> (\<forall>row\<in>set (merge_excel_rows rows). \<forall>c s. (c, Str s) \<in> set row \<longrightarrow> strip s = s)
      \<longrightarrow> map map_of (merge_excel_rows (merge_excel_rows rows))
            = map map_of (merge_excel_rows rows))"
proof (intro conjI impI)
  assume "mset rows' = mset rows"
  then have s: "set rows' = set rows" by (rule mset_eq_setD)
  show "map_of (zip (map fst (group_rows rows' [])) (map map_of (merged_rows (group_rows rows' []))))
        = map_of (zip (map fst (group_rows rows [])) (map map_of (merged_rows (group_rows rows []))))"
    by (rule merged_by_name_set[OF s])
  show "mset (map map_of (merge_excel_rows rows')) = mset (map map_of (merge_excel_rows rows))"
    by (rule merge_excel_rows_set[OF s])
next
  assume a: "distinct (map row_filename (merge_excel_rows rows))
        \<and> (\<forall>row\<in>set (merge_excel_rows rows). \<forall>c s. (c, Str s) \<in> set row \<longrightarrow> strip s = s)"
  show "map map_of (merge_excel_rows (merge_excel_rows rows)) = map map_of (merge_excel_rows rows)"
    using a by (intro merge_excel_rows_fixed merge_excel_rows_shape) auto
qed

text \<open>
  Claim C6 as stated makes the normalizer idempotent on every ledger.  Two rows of \<open>a.py\<close>
  whose \<open>Excel_ID\<close> are a blank and \<open>7\<close> are merged to a line feed followed by \<open>7\<close>, since
  the trimmed blank is the empty string; a second pass trims that value to \<open>7\<close>.
\<close>

theorem merge_excel_rows_laws_counterexample:
  "merge_excel_rows [[(''Filename'', Str ''a.py''), (''Excel_ID'', Str '' '')],
                     [(''Filename'', Str ''a.py''), (''Excel_ID'', Str ''7'')]]
     = [[(''Filename'', Str ''a.py''), (''Excel_ID'', Str (CHR 0x0A # ''7''))]]
   \<and> merge_excel_rows [[(''Filename'', Str ''a.py''), (''Excel_ID'', Str (CHR 0x0A # ''7''))]]
     = [[(''Filename'', Str ''a.py''), (''Excel_ID'', Str ''7'')]]"
  by code_simp

theorem merge_excel_rows_laws_witness:
  "mset [[(''Filename'', Str ''a.py ''), (''Excel_ID'', Str ''8'')],
         [(''Filename'', Str ''A.py''), (''Excel_ID'', Str '' 7'')],
         [(''Filename'', Str ''b.java''), (''Excel_ID'', Str ''9'')]]
     = mset [[(''Filename'', Str ''A.py''), (''Excel_ID'', Str '' 7'')],
             [(''Filename'', Str ''a.py ''), (''Excel_ID'', Str ''8'')],
             [(''Filename'', Str ''b.java''), (''Excel_ID'', Str ''9'')]]
   \<and> merge_excel_rows [[(''Filename'', Str ''A.py''), (''Excel_ID'', Str '' 7'')],
                       [(''Filename'', Str ''a.py ''), (''Excel_ID'', Str ''8'')],
                       [(''Filename'', Str ''b.java''), (''Excel_ID'', Str ''9'')]]
       = [[(''Filename'', Str (''A.py'' @ [CHR 0x0A] @ ''a.py'')),
           (''Excel_ID'', Str (''7'' @ [CHR 0x0A] @ ''8''))],
          [(''Filename'', Str ''b.java''), (''Excel_ID'', Str ''9'')]]
   \<and> mset (map map_of (merge_excel_rows
         [[(''Filename'', Str ''a.py ''), (''Excel_ID'', Str ''8'')],
          [(''Filename'', Str ''A.py''), (''Excel_ID'', Str '' 7'')],
          [(''Filename'', Str ''b.java''), (''Excel_ID'', Str ''9'')]]))
       = mset (map map_of
          [[(''Filename'', Str (''A.py'' @ [CHR 0x0A] @ ''a.py'')),
            (''Excel_ID'', Str (''7'' @ [CHR 0x0A] @ ''8''))],
           [(''Filename'', Str ''b.java''), (''Excel_ID'', Str ''9'')]])
   \<and> map map_of (merge_excel_rows
          [[(''Filename'', Str (''A.py'' @ [CHR 0x0A] @ ''a.py'')),
            (''Excel_ID'', Str (''7'' @ [CHR 0x0A] @ ''8''))],
           [(''Filename'', Str ''b.java''), (''Excel_ID'', Str ''9'')]])
       = map map_of
          [[(''Filename'', Str (''A.py'' @ [CHR 0x0A] @ ''a.py'')),
            (''Excel_ID'', Str (''7'' @ [CHR 0x0A] @ ''8''))],
           [(''Filename'', Str ''b.java''), (''Excel_ID'', Str ''9'')]]"
proof -
  let ?rows = "[[(''Filename'', Str ''A.py''), (''Excel_ID'', Str '' 7'')],
                [(''Filename'', Str ''a.py ''), (''Excel_ID'', Str ''8'')],
                [(''Filename'', Str ''b.java''), (''Excel_ID'', Str ''9'')]]"
  let ?rows' = "[[(''Filename'', Str ''a.py ''), (''Excel_ID'', Str ''8'')],
                 [(''Filename'', Str ''A.py''), (''Excel_ID'', Str '' 7'')],
                 [(''Filename'', Str ''b.java''), (''Excel_ID'', Str ''9'')]]"
  let ?out = "[[(''Filename'', Str (''A.py'' @ [CHR 0x0A] @ ''a.py'')),
                (''Excel_ID'', Str (''7'' @ [CHR 0x0A] @ ''8''))],
               [(''Filename'', Str ''b.java''), (''Excel_ID'', Str ''9'')]]"
  have p: "mset ?rows' = mset ?rows" by (simp add: add_mset_commute)
  have e: "merge_excel_rows ?rows = ?out" by code_simp
  have d: "distinct (map row_filename ?out)" by code_simp
  have t: "\<forall>row\<in>set ?out. \<forall>c s. (c, Str s) \<in> set row \<longrightarrow> strip s = s"
    by (auto simp: strip_def lstrip_def rstrip_def isspace_def)
  from merge_excel_rows_laws[of ?rows' ?rows] p d t
  have "mset (map map_of (merge_excel_rows ?rows')) = mset (map map_of ?out)
      \<and> map map_of (merge_excel_rows ?out) = map map_of ?out"
    unfolding e by blast
  with p e show ?thesis by blast
qed

end
